theory Spec2Isabelle
  imports Complex_Main "HOL-Library.AList"
begin

section \<open>The ISPU index engine of app.py\<close>

text \<open>
  The development embeds the index computation of \<^verbatim>\<open>src/app.py\<close>:
  \<^verbatim>\<open>classify_air_quality\<close>, \<^verbatim>\<open>validate_inputs\<close>, \<^verbatim>\<open>calculate_ispu_manual\<close> with its
  nested \<^verbatim>\<open>calculate_sub_index\<close>, \<^verbatim>\<open>classify_based_on_ispu\<close> and the validation gate
  of the prediction page.

  Numbers: the Python code computes on \<^verbatim>\<open>int\<close> and \<^verbatim>\<open>float\<close> values. The functions
  \<open>scan_bands\<close>, \<open>calculate_sub_index\<close> and \<open>calculate_ispu_manual\<close> compute on exact
  rationals (\<^typ>\<open>rat\<close>): what is proved of them is about the exact arithmetic of the
  formulas. The value that the source returns for a sub-index is the result of IEEE
  double operations; it is described by \<open>scan_bands_fp\<close> and \<open>calculate_sub_index_fp\<close>,
  the same loop over an arithmetic that is a parameter.

  Strings are byte lists: a character beyond ASCII is written as its UTF-8 bytes. The
  library methods \<^verbatim>\<open>str.lower\<close> and \<^verbatim>\<open>str.upper\<close> are parameters of the functions that
  call them.
\<close>

subsection \<open>Python primitives\<close>

datatype py_error = KeyError | IndexError | ValueError

text \<open>\<^verbatim>\<open>d[k]\<close> on a dict literal (kept as the list of its items): a missing key raises.\<close>

definition dict_get :: "('k \<times> 'v) list \<Rightarrow> 'k \<Rightarrow> py_error + 'v" where
  "dict_get d k = (case map_of d k of None \<Rightarrow> Inl KeyError | Some v \<Rightarrow> Inr v)"

text \<open>\<^verbatim>\<open>xs[i]\<close> for an index \<open>i \<ge> 0\<close>: out of range raises.\<close>

definition list_get :: "'a list \<Rightarrow> nat \<Rightarrow> py_error + 'a" where
  "list_get xs i = (if i < length xs then Inr (xs ! i) else Inl IndexError)"

text \<open>\<^verbatim>\<open>max(xs)\<close>: the empty list raises ValueError.\<close>

definition py_max :: "rat list \<Rightarrow> py_error + rat" where
  "py_max xs = (case xs of [] \<Rightarrow> Inl ValueError | x # rest \<Rightarrow> Inr (fold max rest x))"

text \<open>\<^verbatim>\<open>xs.index(v)\<close>: the first position holding \<open>v\<close>; ValueError when there is none.\<close>

fun list_index :: "'a list \<Rightarrow> 'a \<Rightarrow> py_error + nat" where
  "list_index [] v = Inl ValueError"
| "list_index (y # ys) v =
     (if y = v then Inr 0
      else (case list_index ys v of Inl e \<Rightarrow> Inl e | Inr n \<Rightarrow> Inr (Suc n)))"

text \<open>
  \<^verbatim>\<open>round(x, ndigits)\<close>: the nearest multiple of \<open>10 ^ (- ndigits)\<close>, a tie going to the
  even one.
\<close>

definition round_half_even :: "rat \<Rightarrow> int" where
  "round_half_even y =
     (let f = \<lfloor>y\<rfloor>; d = y - of_int f
      in if d < 1 / 2 then f
         else if 1 / 2 < d then f + 1
         else if even f then f else f + 1)"

definition py_round :: "rat \<Rightarrow> nat \<Rightarrow> rat" where
  "py_round x ndigits = of_int (round_half_even (x * 10 ^ ndigits)) / 10 ^ ndigits"

text \<open>
  \<^verbatim>\<open>str.lower\<close> and \<^verbatim>\<open>str.upper\<close> follow the Unicode case tables. The functions below
  that call them take them as the parameters \<open>lower\<close> and \<open>upper\<close>. On ASCII strings the two
  methods are \<open>ascii_lower\<close> and \<open>ascii_upper\<close>, which map the 26 letters and keep every
  other byte; they serve to evaluate calls whose keys are ASCII.
\<close>

definition upper_letters :: string where
  "upper_letters = ''ABCDEFGHIJKLMNOPQRSTUVWXYZ''"

definition lower_letters :: string where
  "lower_letters = ''abcdefghijklmnopqrstuvwxyz''"

definition lower_char :: "char \<Rightarrow> char" where
  "lower_char c = (case map_of (zip upper_letters lower_letters) c of None \<Rightarrow> c | Some l \<Rightarrow> l)"

definition upper_char :: "char \<Rightarrow> char" where
  "upper_char c = (case map_of (zip lower_letters upper_letters) c of None \<Rightarrow> c | Some u \<Rightarrow> u)"

definition ascii_lower :: "string \<Rightarrow> string" where
  "ascii_lower s = map lower_char s"

definition ascii_upper :: "string \<Rightarrow> string" where
  "ascii_upper s = map upper_char s"

subsection \<open>classify\_air\_quality\<close>

definition classify_air_quality :: "rat \<Rightarrow> string \<times> string \<times> string" where
  "classify_air_quality ispu_value =
     (if ispu_value \<le> 50 then
        (''Baik'', ''#10B981'', [CHR 0xF0, CHR 0x9F, CHR 0x98, CHR 0x8A])
      else if ispu_value \<le> 100 then
        (''Sedang'', ''#F59E0B'', [CHR 0xF0, CHR 0x9F, CHR 0x98, CHR 0x90])
      else if ispu_value \<le> 200 then
        (''Tidak Sehat'', ''#EF4444'', [CHR 0xF0, CHR 0x9F, CHR 0x98, CHR 0xB7])
      else if ispu_value \<le> 300 then
        (''Sangat Tidak Sehat'', ''#7C3AED'', [CHR 0xF0, CHR 0x9F, CHR 0xA4, CHR 0xA2])
      else
        (''Berbahaya'', ''#DC2626'',
         [CHR 0xE2, CHR 0x98, CHR 0xA0, CHR 0xEF, CHR 0xB8, CHR 0x8F]))"

subsection \<open>validate\_inputs\<close>

text \<open>
  A dict is the list of its items in insertion order, with distinct keys. The
  comprehension \<^verbatim>\<open>{k.lower(): v for k, v in inputs.items()}\<close> inserts the items one by
  one: a key already present keeps its place and takes the new value
  (\<^const>\<open>AList.update\<close>), a new key goes to the end.
\<close>

definition lower_keys :: "(string \<Rightarrow> string) \<Rightarrow> (string \<times> rat) list \<Rightarrow> (string \<times> rat) list" where
  "lower_keys lower inputs = fold (\<lambda>(k, v) d. AList.update (lower k) v d) inputs []"

text \<open>The loop over \<^verbatim>\<open>inputs_lower.items()\<close>, appending to \<^verbatim>\<open>errors\<close>.\<close>

fun check_ranges ::
  "(string \<Rightarrow> string) \<Rightarrow> (string \<times> rat) list \<Rightarrow> string list \<Rightarrow> string list" where
  "check_ranges upper [] errors = errors"
| "check_ranges upper ((name, value) # rest) errors =
     check_ranges upper rest
       (if value < 0 then errors @ [upper name @ '' tidak boleh negatif'']
        else if value > 10000 then errors @ [upper name @ '' terlalu tinggi (maksimal 10000)'']
        else errors)"

definition co_message :: string where
  "co_message = ''Nilai CO terlalu tinggi (maksimal 100 mg/m'' @ [CHR 0xC2, CHR 0xB3] @ '')''"

definition validate_inputs ::
  "(string \<Rightarrow> string) \<Rightarrow> (string \<Rightarrow> string) \<Rightarrow> (string \<times> rat) list \<Rightarrow> string list" where
  "validate_inputs lower upper inputs =
     (let inputs_lower = lower_keys lower inputs;
          errors = check_ranges upper inputs_lower [];
          co_value = (case map_of inputs_lower ''co'' of None \<Rightarrow> 0 | Some v \<Rightarrow> v)
      in if co_value > 100 then errors @ [co_message] else errors)"

subsection \<open>calculate\_ispu\_manual\<close>

definition thresholds :: "(string \<times> rat list) list" where
  "thresholds =
     [(''pm10'', [0, 50, 150, 350, 420, 500]),
      (''pm2_5'', [0, 15.5, 55.4, 150.4, 250.4, 350.4]),
      (''so2'', [0, 52, 180, 400, 800, 1200]),
      (''no2'', [0, 80, 200, 1130, 2260, 3000]),
      (''o3'', [0, 120, 235, 400, 800, 1000]),
      (''co'', [0, 4000, 8000, 15000, 30000, 45000])]"

text \<open>
  The body of the loop \<^verbatim>\<open>for i in range(5)\<close> of \<^verbatim>\<open>calculate_sub_index\<close>, on the
  remaining values of \<open>i\<close>; falling out of the loop returns 500.
\<close>

fun scan_bands :: "rat \<Rightarrow> rat list \<Rightarrow> nat list \<Rightarrow> py_error + rat" where
  "scan_bands C thresh [] = Inr 500"
| "scan_bands C thresh (i # rest) =
     (case list_get thresh (i + 1) of
        Inl e \<Rightarrow> Inl e
      | Inr t \<Rightarrow>
          (if C \<le> t then
             (let I_low = of_nat (i * 50);
                  I_high = of_nat ((i + 1) * 50)
              in (case list_get thresh i of
                    Inl e \<Rightarrow> Inl e
                  | Inr C_low \<Rightarrow>
                      (case list_get thresh (i + 1) of
                         Inl e \<Rightarrow> Inl e
                       | Inr C_high \<Rightarrow>
                           (if C_high - C_low = 0 then Inr I_low
                            else Inr (py_round
                              (((I_high - I_low) / (C_high - C_low)) * (C - C_low) + I_low) 2)))))
           else scan_bands C thresh rest))"

text \<open>The six keys that \<^verbatim>\<open>calculate_ispu_manual\<close> passes to \<^verbatim>\<open>calculate_sub_index\<close>.\<close>

definition pollutant_keys :: "string list" where
  "pollutant_keys = [''pm10'', ''pm2_5'', ''so2'', ''no2'', ''o3'', ''co'']"

definition calculate_sub_index :: "rat \<Rightarrow> string \<Rightarrow> py_error + rat" where
  "calculate_sub_index C pollutant =
     (case dict_get thresholds pollutant of
        Inl e \<Rightarrow> Inl e
      | Inr thresh \<Rightarrow> scan_bands C thresh [0..<5])"

definition pollutants :: "string list" where
  "pollutants =
     [''PM10'', ''PM2.5'',
      ''SO'' @ [CHR 0xE2, CHR 0x82, CHR 0x82],
      ''NO'' @ [CHR 0xE2, CHR 0x82, CHR 0x82],
      ''O'' @ [CHR 0xE2, CHR 0x82, CHR 0x83],
      ''CO'']"

text \<open>The part of \<^verbatim>\<open>calculate_ispu_manual\<close> after the six sub-indices are known.\<close>

definition aggregate :: "rat list \<Rightarrow> py_error + (rat \<times> rat list \<times> string)" where
  "aggregate sub_indices =
     (case py_max sub_indices of
        Inl e \<Rightarrow> Inl e
      | Inr ispu \<Rightarrow>
          (case list_index sub_indices ispu of
             Inl e \<Rightarrow> Inl e
           | Inr dominant_idx \<Rightarrow>
               (case list_get pollutants dominant_idx of
                  Inl e \<Rightarrow> Inl e
                | Inr dominant_pollutant \<Rightarrow> Inr (ispu, sub_indices, dominant_pollutant))))"

definition calculate_ispu_manual ::
  "rat \<Rightarrow> rat \<Rightarrow> rat \<Rightarrow> rat \<Rightarrow> rat \<Rightarrow> rat \<Rightarrow> py_error + (rat \<times> rat list \<times> string)" where
  "calculate_ispu_manual pm10 pm2_5 so2 no2 o3 co =
     (let co_ug = co * 1000
      in (case calculate_sub_index pm10 ''pm10'' of Inl e \<Rightarrow> Inl e | Inr s0 \<Rightarrow>
         (case calculate_sub_index pm2_5 ''pm2_5'' of Inl e \<Rightarrow> Inl e | Inr s1 \<Rightarrow>
         (case calculate_sub_index so2 ''so2'' of Inl e \<Rightarrow> Inl e | Inr s2 \<Rightarrow>
         (case calculate_sub_index no2 ''no2'' of Inl e \<Rightarrow> Inl e | Inr s3 \<Rightarrow>
         (case calculate_sub_index o3 ''o3'' of Inl e \<Rightarrow> Inl e | Inr s4 \<Rightarrow>
         (case calculate_sub_index co_ug ''co'' of Inl e \<Rightarrow> Inl e | Inr s5 \<Rightarrow>
            aggregate [s0, s1, s2, s3, s4, s5])))))))"

subsection \<open>classify\_based\_on\_ispu\<close>

definition classify_based_on_ispu :: "rat \<Rightarrow> string" where
  "classify_based_on_ispu ispu =
     (if ispu \<le> 50 then ''Baik '' @ [CHR 0xF0, CHR 0x9F, CHR 0x9F, CHR 0xA2]
      else if ispu \<le> 100 then ''Sedang '' @ [CHR 0xF0, CHR 0x9F, CHR 0x9F, CHR 0xA1]
      else if ispu \<le> 200 then ''Tidak Sehat '' @ [CHR 0xF0, CHR 0x9F, CHR 0x9F, CHR 0xA0]
      else if ispu \<le> 300 then
        ''Sangat Tidak Sehat '' @ [CHR 0xF0, CHR 0x9F, CHR 0x94, CHR 0xB4]
      else ''Berbahaya '' @ [CHR 0xF0, CHR 0x9F, CHR 0x9F, CHR 0xA3])"

subsection \<open>The validation gate of the prediction page\<close>

text \<open>
  What the handler of the button does with the eight readings: it calls
  \<^verbatim>\<open>validate_inputs\<close>; on any message it shows each message with \<^verbatim>\<open>st.error\<close> and stops the
  script with \<^verbatim>\<open>st.stop()\<close>; otherwise it calls \<^verbatim>\<open>calculate_ispu_manual\<close> and
  \<^verbatim>\<open>classify_based_on_ispu\<close>. The calls and the two Streamlit effects are recorded, in the
  order of the source, in a trace; the progress bar and the rendering are left out.
\<close>

datatype effect =
    Validate "(string \<times> rat) list"
  | ShowError string
  | Stop
  | Engine rat rat rat rat rat rat
  | Classify rat

fun is_engine_call :: "effect \<Rightarrow> bool" where
  "is_engine_call (Engine pm10 pm2_5 so2 no2 o3 co) = True"
| "is_engine_call other = False"

datatype page_outcome =
    Stopped "string list"
  | Failed py_error
  | Predicted rat "rat list" string string

text \<open>The prefix of a shown message: a cross mark (U+274C) and a space.\<close>

definition cross_mark :: string where
  "cross_mark = [CHR 0xE2, CHR 0x9D, CHR 0x8C] @ '' ''"

definition prediction_button ::
  "(string \<Rightarrow> string) \<Rightarrow> (string \<Rightarrow> string) \<Rightarrow>
   rat \<Rightarrow> rat \<Rightarrow> rat \<Rightarrow> rat \<Rightarrow> rat \<Rightarrow> rat \<Rightarrow> rat \<Rightarrow> rat \<Rightarrow> effect list \<times> page_outcome" where
  "prediction_button lower upper pm10 pm2_5 so2 no no2 o3 co nh3 =
     (let inputs = [(''pm10'', pm10), (''pm2_5'', pm2_5), (''so2'', so2), (''no'', no),
                    (''no2'', no2), (''o3'', o3), (''co'', co), (''nh3'', nh3)];
          validation_errors = validate_inputs lower upper inputs
      in if validation_errors \<noteq> [] then
           (Validate inputs # map (\<lambda>error. ShowError (cross_mark @ error)) validation_errors
              @ [Stop],
            Stopped validation_errors)
         else (case calculate_ispu_manual pm10 pm2_5 so2 no2 o3 co of
                 Inl e \<Rightarrow> ([Validate inputs, Engine pm10 pm2_5 so2 no2 o3 co], Failed e)
               | Inr (ispu_pred, sub_indices, dominant_pollutant) \<Rightarrow>
                   ([Validate inputs, Engine pm10 pm2_5 so2 no2 o3 co, Classify ispu_pred],
                    Predicted ispu_pred sub_indices dominant_pollutant
                      (classify_based_on_ispu ispu_pred))))"

text \<open>The outcome of the page; its keys are ASCII.\<close>

definition prediction_page ::
  "rat \<Rightarrow> rat \<Rightarrow> rat \<Rightarrow> rat \<Rightarrow> rat \<Rightarrow> rat \<Rightarrow> rat \<Rightarrow> rat \<Rightarrow> page_outcome" where
  "prediction_page pm10 pm2_5 so2 no no2 o3 co nh3 =
     snd (prediction_button ascii_lower ascii_upper pm10 pm2_5 so2 no no2 o3 co nh3)"

subsection \<open>The sub-index over an arbitrary arithmetic\<close>

text \<open>
  The arithmetic that \<^verbatim>\<open>calculate_sub_index\<close> uses, as a parameter: the value of a numeric
  literal or of an \<^verbatim>\<open>int\<close> (\<open>num\<close>), the four operations, the comparisons \<^verbatim>\<open><=\<close> and
  \<^verbatim>\<open>==\<close>, and \<^verbatim>\<open>round\<close>. \<open>I_low\<close> and \<open>I_high\<close> are Python integers and are computed as
  such. With the operations of IEEE doubles \<open>scan_bands_fp\<close> is the loop as Python runs
  it (the integers of the table are doubles without error); with \<open>exact_arith\<close> it is
  \<open>scan_bands\<close>.
\<close>

record 'f arith =
  num :: "rat \<Rightarrow> 'f"
  fadd :: "'f \<Rightarrow> 'f \<Rightarrow> 'f"
  fsub :: "'f \<Rightarrow> 'f \<Rightarrow> 'f"
  fmul :: "'f \<Rightarrow> 'f \<Rightarrow> 'f"
  fdiv :: "'f \<Rightarrow> 'f \<Rightarrow> 'f"
  fle :: "'f \<Rightarrow> 'f \<Rightarrow> bool"
  feq :: "'f \<Rightarrow> 'f \<Rightarrow> bool"
  fround :: "'f \<Rightarrow> nat \<Rightarrow> 'f"

fun scan_bands_fp :: "'f arith \<Rightarrow> 'f \<Rightarrow> 'f list \<Rightarrow> nat list \<Rightarrow> py_error + 'f" where
  "scan_bands_fp ar C thresh [] = Inr (num ar 500)"
| "scan_bands_fp ar C thresh (i # rest) =
     (case list_get thresh (i + 1) of
        Inl e \<Rightarrow> Inl e
      | Inr t \<Rightarrow>
          (if fle ar C t then
             (let I_low = int i * 50;
                  I_high = (int i + 1) * 50
              in (case list_get thresh i of
                    Inl e \<Rightarrow> Inl e
                  | Inr C_low \<Rightarrow>
                      (case list_get thresh (i + 1) of
                         Inl e \<Rightarrow> Inl e
                       | Inr C_high \<Rightarrow>
                           (if feq ar (fsub ar C_high C_low) (num ar 0)
                            then Inr (num ar (of_int I_low))
                            else Inr (fround ar
                              (fadd ar
                                 (fmul ar
                                    (fdiv ar (num ar (of_int (I_high - I_low)))
                                       (fsub ar C_high C_low))
                                    (fsub ar C C_low))
                                 (num ar (of_int I_low))) 2)))))
           else scan_bands_fp ar C thresh rest))"

definition thresholds_fp :: "'f arith \<Rightarrow> (string \<times> 'f list) list" where
  "thresholds_fp ar = map (\<lambda>(pollutant, thresh). (pollutant, map (num ar) thresh)) thresholds"

definition calculate_sub_index_fp :: "'f arith \<Rightarrow> 'f \<Rightarrow> string \<Rightarrow> py_error + 'f" where
  "calculate_sub_index_fp ar C pollutant =
     (case dict_get (thresholds_fp ar) pollutant of
        Inl e \<Rightarrow> Inl e
      | Inr thresh \<Rightarrow> scan_bands_fp ar C thresh [0..<5])"

definition exact_arith :: "rat arith" where
  "exact_arith =
     \<lparr>num = (\<lambda>q. q),
      fadd = (\<lambda>a b. a + b), fsub = (\<lambda>a b. a - b),
      fmul = (\<lambda>a b. a * b), fdiv = (\<lambda>a b. a / b),
      fle = (\<lambda>a b. a \<le> b), feq = (\<lambda>a b. a = b),
      fround = py_round\<rparr>"

subsection \<open>The sub-index in the specification's words\<close>

text \<open>
  The specification selects the first band \<open>i\<close> in \<open>0..4\<close> with \<open>C \<le> thresh[i+1]\<close> and
  returns \<open>I_low + (I_high - I_low) / (C_high - C_low) * (C - C_low)\<close> rounded to two
  places, \<open>I_low\<close> itself when \<open>C_high = C_low\<close>, and 500 when no band is selected.
\<close>

definition spec_band :: "rat \<Rightarrow> rat list \<Rightarrow> nat option" where
  "spec_band C thresh = List.find (\<lambda>i. C \<le> thresh ! (i + 1)) [0..<5]"

definition spec_band_value :: "rat \<Rightarrow> rat list \<Rightarrow> nat \<Rightarrow> rat" where
  "spec_band_value C thresh i =
     (let I_low = of_nat i * 50;
          I_high = (of_nat i + 1) * 50;
          C_low = thresh ! i;
          C_high = thresh ! (i + 1)
      in if C_high = C_low then I_low
         else py_round (I_low + (I_high - I_low) / (C_high - C_low) * (C - C_low)) 2)"

definition spec_sub_index :: "rat \<Rightarrow> rat list \<Rightarrow> rat" where
  "spec_sub_index C thresh =
     (case spec_band C thresh of None \<Rightarrow> 500 | Some i \<Rightarrow> spec_band_value C thresh i)"

text \<open>The same over an arbitrary arithmetic.\<close>

definition spec_band_fp :: "'f arith \<Rightarrow> 'f \<Rightarrow> 'f list \<Rightarrow> nat option" where
  "spec_band_fp ar C thresh = List.find (\<lambda>i. fle ar C (thresh ! (i + 1))) [0..<5]"

definition spec_band_value_fp :: "'f arith \<Rightarrow> 'f \<Rightarrow> 'f list \<Rightarrow> nat \<Rightarrow> 'f" where
  "spec_band_value_fp ar C thresh i =
     (let I_low = int i * 50;
          I_high = (int i + 1) * 50;
          C_low = thresh ! i;
          C_high = thresh ! (i + 1)
      in if feq ar C_high C_low then num ar (of_int I_low)
         else fround ar
                (fadd ar (num ar (of_int I_low))
                   (fmul ar (fdiv ar (num ar (of_int (I_high - I_low))) (fsub ar C_high C_low))
                      (fsub ar C C_low))) 2)"

definition spec_sub_index_fp :: "'f arith \<Rightarrow> 'f \<Rightarrow> 'f list \<Rightarrow> 'f" where
  "spec_sub_index_fp ar C thresh =
     (case spec_band_fp ar C thresh of
        None \<Rightarrow> num ar 500
      | Some i \<Rightarrow> spec_band_value_fp ar C thresh i)"

section \<open>Properties\<close>

subsection \<open>Rounding\<close>

lemma round_half_even_cases:
  "round_half_even y = \<lfloor>y\<rfloor> \<or> round_half_even y = \<lfloor>y\<rfloor> + 1"
  by (simp add: round_half_even_def Let_def)

lemma round_half_even_of_int: "round_half_even (of_int k) = k"
  by (simp add: round_half_even_def Let_def)

lemma round_half_even_ge: "of_int k \<le> y \<Longrightarrow> k \<le> round_half_even y"
proof -
  assume "of_int k \<le> y"
  then have "k \<le> \<lfloor>y\<rfloor>" by (simp add: le_floor_iff)
  with round_half_even_cases [of y] show ?thesis by linarith
qed

lemma round_half_even_le: "y \<le> of_int k \<Longrightarrow> round_half_even y \<le> k"
proof (cases "y = of_int k")
  case True
  then show ?thesis by (simp add: round_half_even_of_int)
next
  case False
  assume "y \<le> of_int k"
  with False have "y < of_int k" by simp
  then have "\<lfloor>y\<rfloor> < k" by (simp add: floor_less_iff)
  with round_half_even_cases [of y] show ?thesis by linarith
qed

lemma round_half_even_mono: "x \<le> y \<Longrightarrow> round_half_even x \<le> round_half_even y"
proof -
  assume xy: "x \<le> y"
  then have fl: "\<lfloor>x\<rfloor> \<le> \<lfloor>y\<rfloor>" by (rule floor_mono)
  show ?thesis
  proof (cases "\<lfloor>x\<rfloor> = \<lfloor>y\<rfloor>")
    case True
    with xy show ?thesis
      by (auto simp: round_half_even_def Let_def)
  next
    case False
    with fl have "\<lfloor>x\<rfloor> + 1 \<le> \<lfloor>y\<rfloor>" by simp
    with round_half_even_cases [of x] round_half_even_cases [of y] show ?thesis by linarith
  qed
qed

lemma py_round_mono: "x \<le> y \<Longrightarrow> py_round x n \<le> py_round y n"
  by (simp add: py_round_def divide_right_mono round_half_even_mono mult_right_mono)

lemma py_round_of_int: "py_round (of_int k) n = of_int k"
proof -
  have "of_int k * 10 ^ n = (of_int (k * 10 ^ n) :: rat)" by simp
  then have "round_half_even (of_int k * 10 ^ n) = k * 10 ^ n"
    by (simp only: round_half_even_of_int)
  then show ?thesis by (simp add: py_round_def)
qed

lemma py_round_ge: "of_int k \<le> x \<Longrightarrow> of_int k \<le> py_round x n"
  using py_round_mono [of "of_int k" x n] by (simp add: py_round_of_int)

lemma py_round_le: "x \<le> of_int k \<Longrightarrow> py_round x n \<le> of_int k"
  using py_round_mono [of x "of_int k" n] by (simp add: py_round_of_int)

subsection \<open>The band scan\<close>

lemma range5: "[0..<5] = [0, 1, 2, 3, 4]"
  by code_simp

lemma scan_bands_Cons:
  assumes "length thresh = 6" and "i < 5"
  shows "scan_bands C thresh (i # rest) =
           (if C \<le> thresh ! (i + 1) then Inr (spec_band_value C thresh i)
            else scan_bands C thresh rest)"
  using assms by (simp add: list_get_def spec_band_value_def Let_def algebra_simps)

lemma scan_bands_refines:
  assumes "length thresh = 6"
  shows "scan_bands C thresh [0..<5] = Inr (spec_sub_index C thresh)"
  by (simp add: range5 scan_bands_Cons [OF assms] spec_sub_index_def spec_band_def
        del: scan_bands.simps(2) upt_rec_numeral)

lemma interp_slope:
  fixes I J lo hi :: rat
  assumes "lo < hi" and "I \<le> J"
  shows "0 \<le> (J - I) / (hi - lo)"
  using assms by simp

lemma interp_lower:
  fixes I J lo hi C :: rat
  assumes "lo < hi" and "I \<le> J" and "lo \<le> C"
  shows "I \<le> I + (J - I) / (hi - lo) * (C - lo)"
proof -
  have "0 \<le> (J - I) / (hi - lo) * (C - lo)"
    using interp_slope [OF assms(1,2)] assms(3) by (intro mult_nonneg_nonneg) simp_all
  then show ?thesis by simp
qed

lemma interp_top:
  fixes I J lo hi :: rat
  assumes "lo < hi"
  shows "I + (J - I) / (hi - lo) * (hi - lo) = J"
  using assms by simp

lemma interp_mono:
  fixes I J lo hi C C' :: rat
  assumes "lo < hi" and "I \<le> J" and "C \<le> C'"
  shows "I + (J - I) / (hi - lo) * (C - lo) \<le> I + (J - I) / (hi - lo) * (C' - lo)"
proof -
  have "(J - I) / (hi - lo) * (C - lo) \<le> (J - I) / (hi - lo) * (C' - lo)"
    using interp_slope [OF assms(1,2)] assms(3) by (intro mult_left_mono) simp_all
  then show ?thesis by simp
qed

lemma interp_upper:
  fixes I J lo hi C :: rat
  assumes "lo < hi" and "I \<le> J" and "C \<le> hi"
  shows "I + (J - I) / (hi - lo) * (C - lo) \<le> J"
  using interp_mono [OF assms] interp_top [OF assms(1), of I J] by simp

lemma band_value_interp:
  assumes "thresh ! i < thresh ! (i + 1)"
  shows "spec_band_value C thresh i =
           py_round (of_int (int i * 50)
             + (of_int ((int i + 1) * 50) - of_int (int i * 50))
                 / (thresh ! (i + 1) - thresh ! i) * (C - thresh ! i)) 2"
  using assms by (simp add: spec_band_value_def Let_def)

lemma band_value_lower:
  assumes "thresh ! i < thresh ! (i + 1)" and "thresh ! i \<le> C"
  shows "of_nat i * 50 \<le> spec_band_value C thresh i"
proof -
  have "of_int (int i * 50) \<le> spec_band_value C thresh i"
    unfolding band_value_interp [OF assms(1)]
    by (rule py_round_ge, rule interp_lower) (use assms in simp_all)
  then show ?thesis by simp
qed

lemma band_value_upper:
  assumes "thresh ! i < thresh ! (i + 1)" and "C \<le> thresh ! (i + 1)"
  shows "spec_band_value C thresh i \<le> (of_nat i + 1) * 50"
proof -
  have "spec_band_value C thresh i \<le> of_int ((int i + 1) * 50)"
    unfolding band_value_interp [OF assms(1)]
    by (rule py_round_le, rule interp_upper) (use assms in simp_all)
  then show ?thesis by simp
qed

lemma band_value_mono:
  assumes "thresh ! i < thresh ! (i + 1)" and "C \<le> C'"
  shows "spec_band_value C thresh i \<le> spec_band_value C' thresh i"
  unfolding band_value_interp [OF assms(1)]
  by (rule py_round_mono, rule interp_mono) (use assms in simp_all)

lemma band_value_top:
  assumes "thresh ! i < thresh ! (i + 1)"
  shows "spec_band_value (thresh ! (i + 1)) thresh i = (of_nat i + 1) * 50"
proof -
  have "spec_band_value (thresh ! (i + 1)) thresh i = of_int ((int i + 1) * 50)"
    unfolding band_value_interp [OF assms(1)] interp_top [OF assms(1)]
    by (rule py_round_of_int)
  then show ?thesis by simp
qed

lemma upt5_Cons: "k < 5 \<Longrightarrow> [k..<5] = k # [Suc k..<5]"
  by (rule upt_conv_Cons)

text \<open>On a strictly increasing table, from band \<open>k\<close> on the scan gives a value of at least
  \<open>50 k\<close> that is at most 250 or is 500.\<close>

lemma scan_bands_range:
  assumes len: "length thresh = 6" and inc: "sorted_wrt (<) thresh"
  shows "k \<le> 5 \<Longrightarrow> thresh ! k \<le> C \<Longrightarrow>
           \<exists>v. scan_bands C thresh [k..<5] = Inr v \<and> of_nat k * 50 \<le> v
                 \<and> (v \<le> 250 \<or> v = 500)"
proof (induction "5 - k" arbitrary: k)
  case 0
  then have "k = 5" by simp
  then show ?case by simp
next
  case (Suc n)
  then have k: "k < 5" by simp
  have step: "thresh ! k < thresh ! (k + 1)"
    using sorted_wrt_nth_less [OF inc, of k "k + 1"] k len by simp
  show ?case
  proof (cases "C \<le> thresh ! (k + 1)")
    case True
    have "of_nat k * 50 \<le> spec_band_value C thresh k"
      using band_value_lower [OF step] Suc.prems by simp
    moreover have "spec_band_value C thresh k \<le> (of_nat k + 1) * 50"
      using band_value_upper [OF step True] .
    moreover have "(of_nat k + 1) * 50 \<le> (250 :: rat)"
    proof -
      have "of_nat (k + 1) \<le> (of_nat 5 :: rat)" using k by (subst of_nat_le_iff) simp
      then show ?thesis by simp
    qed
    ultimately show ?thesis
      using True by (simp add: upt5_Cons [OF k] scan_bands_Cons [OF len k] del: scan_bands.simps(2))
  next
    case False
    have "n = 5 - Suc k" using Suc.hyps(2) by simp
    moreover have "Suc k \<le> 5" using k by simp
    moreover have "thresh ! Suc k \<le> C" using False by simp
    ultimately obtain v where v: "scan_bands C thresh [Suc k..<5] = Inr v"
      "of_nat (Suc k) * 50 \<le> v" "v \<le> 250 \<or> v = 500"
      using Suc.hyps(1) [of "Suc k"] by blast
    have "of_nat k * 50 \<le> (of_nat (Suc k) * 50 :: rat)" by simp
    with v(2) have "of_nat k * 50 \<le> v" by linarith
    with v(1,3) False show ?thesis
      by (simp add: upt5_Cons [OF k] scan_bands_Cons [OF len k] del: scan_bands.simps(2))
  qed
qed

lemma scan_bands_mono:
  assumes len: "length thresh = 6" and inc: "sorted_wrt (<) thresh"
  shows "k \<le> 5 \<Longrightarrow> thresh ! k \<le> C \<Longrightarrow> C \<le> C' \<Longrightarrow>
           \<exists>v v'. scan_bands C thresh [k..<5] = Inr v \<and> scan_bands C' thresh [k..<5] = Inr v'
                 \<and> v \<le> v'"
proof (induction "5 - k" arbitrary: k)
  case 0
  then have "k = 5" by simp
  then show ?case by simp
next
  case (Suc n)
  then have k: "k < 5" by simp
  have step: "thresh ! k < thresh ! (k + 1)"
    using sorted_wrt_nth_less [OF inc, of k "k + 1"] k len by simp
  note unfold = upt5_Cons [OF k] scan_bands_Cons [OF len k]
  show ?case
  proof (cases "C \<le> thresh ! (k + 1)")
    case True
    note low = this
    show ?thesis
    proof (cases "C' \<le> thresh ! (k + 1)")
      case True
      with low band_value_mono [OF step Suc.prems(3)] show ?thesis
        by (simp add: unfold del: scan_bands.simps(2))
    next
      case False
      then have "thresh ! Suc k \<le> C'" by simp
      moreover have "Suc k \<le> 5" using k by simp
      ultimately obtain v' where v': "scan_bands C' thresh [Suc k..<5] = Inr v'"
        "of_nat (Suc k) * 50 \<le> v'"
        using scan_bands_range [OF len inc, of "Suc k" C'] by blast
      have "spec_band_value C thresh k \<le> (of_nat k + 1) * 50"
        using band_value_upper [OF step low] .
      also have "\<dots> = of_nat (Suc k) * 50" by simp
      finally have "spec_band_value C thresh k \<le> v'" using v'(2) by linarith
      with low False v'(1) show ?thesis
        by (simp add: unfold del: scan_bands.simps(2))
    qed
  next
    case False
    then have hi: "\<not> C' \<le> thresh ! (k + 1)" using Suc.prems(3) by simp
    have "n = 5 - Suc k" using Suc.hyps(2) by simp
    moreover have "Suc k \<le> 5" using k by simp
    moreover have "thresh ! Suc k \<le> C" using False by simp
    ultimately show ?thesis
      using Suc.hyps(1) [of "Suc k"] Suc.prems(3) False hi
      by (simp add: unfold del: scan_bands.simps(2))
  qed
qed

lemma scan_bands_saturated:
  assumes len: "length thresh = 6" and inc: "sorted_wrt (<) thresh" and top: "thresh ! 5 < C"
  shows "k \<le> 5 \<Longrightarrow> scan_bands C thresh [k..<5] = Inr 500"
proof (induction "5 - k" arbitrary: k)
  case 0
  then have "k = 5" by simp
  then show ?case by simp
next
  case (Suc n)
  then have k: "k < 5" by simp
  have "thresh ! (k + 1) \<le> thresh ! 5"
  proof (cases "k + 1 = 5")
    case True
    then show ?thesis by simp
  next
    case False
    then show ?thesis
      using sorted_wrt_nth_less [OF inc, of "k + 1" 5] k len by simp
  qed
  then have "\<not> C \<le> thresh ! (k + 1)" using top by simp
  moreover have "scan_bands C thresh [Suc k..<5] = Inr 500"
    using Suc.hyps(1) [of "Suc k"] Suc.hyps(2) k by simp
  ultimately show ?case
    by (simp add: upt5_Cons [OF k] scan_bands_Cons [OF len k] del: scan_bands.simps(2))
qed

lemma scan_bands_at_top:
  assumes len: "length thresh = 6" and inc: "sorted_wrt (<) thresh"
  shows "scan_bands (thresh ! 5) thresh [0..<5] = Inr 250"
proof -
  have lt: "i < 5 \<Longrightarrow> thresh ! i < thresh ! 5" for i
    using sorted_wrt_nth_less [OF inc, of i 5] len by simp
  have "thresh ! 4 < thresh ! (4 + 1)" using lt [of 4] by simp
  from band_value_top [OF this] have "spec_band_value (thresh ! 5) thresh 4 = 250" by simp
  moreover have ne: "i < 4 \<Longrightarrow> \<not> thresh ! 5 \<le> thresh ! (i + 1)" for i
    using lt [of "i + 1"] by simp
  ultimately show ?thesis
    using ne [of 0] ne [of 1] ne [of 2] ne [of 3]
    by (simp add: range5 scan_bands_Cons [OF len] del: scan_bands.simps(2))
qed

subsection \<open>The breakpoint table\<close>

lemma thresholds_wf:
  assumes "dict_get thresholds p = Inr thresh"
  shows "length thresh = 6" and "sorted_wrt (<) thresh" and "thresh ! 0 = 0"
  using assms by (auto simp: dict_get_def thresholds_def split: if_splits)

lemma thresholds_defined:
  assumes "p \<in> set pollutant_keys"
  shows "\<exists>thresh. dict_get thresholds p = Inr thresh"
  using assms by (auto simp: pollutant_keys_def dict_get_def thresholds_def)

lemma calculate_sub_index_scan:
  assumes "dict_get thresholds p = Inr thresh"
  shows "calculate_sub_index C p = scan_bands C thresh [0..<5]"
  using assms by (simp add: calculate_sub_index_def)

section \<open>The claims\<close>

subsection \<open>C1: band selection and interpolation\<close>

lemma scan_bands_fp_Cons:
  assumes "length thresh = 6" and "i < 5"
    and "\<forall>a b. fadd ar a b = fadd ar b a"
    and "\<forall>i<5. feq ar (fsub ar (thresh ! (i + 1)) (thresh ! i)) (num ar 0)
                  = feq ar (thresh ! (i + 1)) (thresh ! i)"
  shows "scan_bands_fp ar C thresh (i # rest) =
           (if fle ar C (thresh ! (i + 1)) then Inr (spec_band_value_fp ar C thresh i)
            else scan_bands_fp ar C thresh rest)"
proof -
  have z: "feq ar (fsub ar (thresh ! (i + 1)) (thresh ! i)) (num ar 0)
      = feq ar (thresh ! (i + 1)) (thresh ! i)"
    using assms(2,4) by blast
  have c: "fadd ar x (num ar q) = fadd ar (num ar q) x" for x q
    using assms(3) by blast
  show ?thesis
    using assms(1,2) z by (simp add: list_get_def spec_band_value_fp_def Let_def c)
qed

lemma scan_bands_fp_refines:
  assumes "length thresh = 6"
    and "\<forall>a b. fadd ar a b = fadd ar b a"
    and "\<forall>i<5. feq ar (fsub ar (thresh ! (i + 1)) (thresh ! i)) (num ar 0)
                  = feq ar (thresh ! (i + 1)) (thresh ! i)"
  shows "scan_bands_fp ar C thresh [0..<5] = Inr (spec_sub_index_fp ar C thresh)"
  by (simp add: range5 scan_bands_fp_Cons [OF assms(1) _ assms(2,3)] spec_sub_index_fp_def
        spec_band_fp_def del: scan_bands_fp.simps(2) upt_rec_numeral)

lemma spec_band_fp_Some_iff:
  "spec_band_fp ar C thresh = Some i \<longleftrightarrow>
     i < 5 \<and> fle ar C (thresh ! (i + 1)) \<and> (\<forall>j<i. \<not> fle ar C (thresh ! (j + 1)))"
  unfolding spec_band_fp_def find_Some_iff
  by (auto simp del: upt_rec_numeral)

lemma spec_band_fp_None_iff:
  "spec_band_fp ar C thresh = None \<longleftrightarrow> (\<forall>i<5. \<not> fle ar C (thresh ! (i + 1)))"
  unfolding spec_band_fp_def find_None_iff
  by (auto simp del: upt_rec_numeral)

lemma exists_first_band:
  assumes "fle ar C (thresh ! 5)"
  shows "\<exists>i. spec_band_fp ar C thresh = Some i"
proof -
  have "spec_band_fp ar C thresh \<noteq> None"
    using assms by (auto simp: spec_band_fp_None_iff intro: exI [of _ 4])
  then show ?thesis by blast
qed

lemma scan_bands_exact: "scan_bands_fp exact_arith C thresh is = scan_bands C thresh is"
  by (induction "is") (simp_all add: exact_arith_def list_get_def Let_def)

lemma thresholds_exact: "thresholds_fp exact_arith = thresholds"
  by (simp add: thresholds_fp_def exact_arith_def thresholds_def)

lemma calculate_sub_index_exact:
  "calculate_sub_index_fp exact_arith C p = calculate_sub_index C p"
  by (simp add: calculate_sub_index_fp_def calculate_sub_index_def thresholds_exact
        scan_bands_exact split: sum.split del: upt_rec_numeral)

text \<open>
  C1. Over any arithmetic in which addition commutes and a difference of two breakpoints
  compares equal to 0 exactly when the breakpoints compare equal (both hold of IEEE
  doubles), and for a table \<open>thresh\<close> of six breakpoints and a concentration
  \<open>C \<le> thresh[5]\<close>: the loop of \<^verbatim>\<open>calculate_sub_index\<close> selects the first band \<open>i\<close> in
  \<open>0..4\<close> with \<open>C \<le> thresh[i+1]\<close> and returns
  \<open>round(I_low + (I_high - I_low) / (C_high - C_low) * (C - C_low), 2)\<close>, each operation
  being the one of the arithmetic, with \<open>I_low = i * 50\<close>, \<open>I_high = (i + 1) * 50\<close>,
  \<open>C_low = thresh[i]\<close>, \<open>C_high = thresh[i+1]\<close>, and \<open>I_low\<close> itself when \<open>C_high == C_low\<close>.
  The same holds of \<^verbatim>\<open>calculate_sub_index(C, p)\<close> for each of the six pollutants, whose
  table is \<open>thresholds[p]\<close>. (The bound \<open>0 \<le> C\<close> of the claim is not needed.)
\<close>

theorem sub_index_interpolation:
  assumes "length thresh = 6" and "fle ar C (thresh ! 5)"
    and "\<forall>a b. fadd ar a b = fadd ar b a"
    and "\<forall>i<5. feq ar (fsub ar (thresh ! (i + 1)) (thresh ! i)) (num ar 0)
                  = feq ar (thresh ! (i + 1)) (thresh ! i)"
  shows "\<exists>i<5. fle ar C (thresh ! (i + 1)) \<and> (\<forall>j<i. \<not> fle ar C (thresh ! (j + 1))) \<and>
           scan_bands_fp ar C thresh [0..<5] =
             Inr (if feq ar (thresh ! (i + 1)) (thresh ! i) then num ar (of_int (int i * 50))
                  else fround ar
                         (fadd ar (num ar (of_int (int i * 50)))
                            (fmul ar
                               (fdiv ar (num ar (of_int ((int i + 1) * 50 - int i * 50)))
                                  (fsub ar (thresh ! (i + 1)) (thresh ! i)))
                               (fsub ar C (thresh ! i)))) 2) \<and>
           (\<forall>p \<in> set pollutant_keys. dict_get (thresholds_fp ar) p = Inr thresh \<longrightarrow>
              calculate_sub_index_fp ar C p =
                Inr (if feq ar (thresh ! (i + 1)) (thresh ! i) then num ar (of_int (int i * 50))
                     else fround ar
                            (fadd ar (num ar (of_int (int i * 50)))
                               (fmul ar
                                  (fdiv ar (num ar (of_int ((int i + 1) * 50 - int i * 50)))
                                     (fsub ar (thresh ! (i + 1)) (thresh ! i)))
                                  (fsub ar C (thresh ! i)))) 2))"
proof -
  from exists_first_band [OF assms(2)] obtain i
    where band: "spec_band_fp ar C thresh = Some i" by blast
  then have i: "i < 5" "fle ar C (thresh ! (i + 1))" "\<forall>j<i. \<not> fle ar C (thresh ! (j + 1))"
    by (simp_all add: spec_band_fp_Some_iff)
  let ?v = "if feq ar (thresh ! (i + 1)) (thresh ! i) then num ar (of_int (int i * 50))
            else fround ar
                   (fadd ar (num ar (of_int (int i * 50)))
                      (fmul ar
                         (fdiv ar (num ar (of_int ((int i + 1) * 50 - int i * 50)))
                            (fsub ar (thresh ! (i + 1)) (thresh ! i)))
                         (fsub ar C (thresh ! i)))) 2"
  have val: "spec_band_value_fp ar C thresh i = ?v"
    by (simp only: spec_band_value_fp_def Let_def)
  have "spec_sub_index_fp ar C thresh = spec_band_value_fp ar C thresh i"
    by (simp only: spec_sub_index_fp_def band option.case)
  then have scan: "scan_bands_fp ar C thresh [0..<5] = Inr ?v"
    by (simp only: scan_bands_fp_refines [OF assms(1,3,4)] val)
  have six: "calculate_sub_index_fp ar C p = Inr ?v"
    if "dict_get (thresholds_fp ar) p = Inr thresh" for p
    using that scan by (simp only: calculate_sub_index_fp_def sum.case)
  show ?thesis
    using i scan six by (intro exI [of _ i]) (simp only: simp_thms, blast)
qed

theorem sub_index_interpolation_witness:
  "calculate_sub_index_fp exact_arith 35 ''pm2_5'' = Inr 74.44 \<and>
   scan_bands_fp exact_arith 0 [0, 0, 1, 2, 3, 4] [0..<5] = Inr 0"
proof -
  let ?t = "[0, 15.5, 55.4, 150.4, 250.4, 350.4] :: rat list"
  have len: "length ?t = 6" by simp
  have top: "fle exact_arith 35 (?t ! 5)" by (simp add: exact_arith_def)
  have comm: "\<forall>a b. fadd exact_arith a b = fadd exact_arith b a"
    by (simp add: exact_arith_def)
  have zero: "\<forall>i<5. feq exact_arith (fsub exact_arith (t ! (i + 1)) (t ! i)) (num exact_arith 0)
      = feq exact_arith (t ! (i + 1)) (t ! i)" for t
    by (simp add: exact_arith_def)
  have key: "''pm2_5'' \<in> set pollutant_keys" by (simp add: pollutant_keys_def)
  have tab: "dict_get (thresholds_fp exact_arith) ''pm2_5'' = Inr ?t"
    by (simp add: thresholds_exact dict_get_def thresholds_def)
  from sub_index_interpolation [OF len top comm zero] obtain i
    where i: "i < 5" "fle exact_arith 35 (?t ! (i + 1))"
        "\<forall>j<i. \<not> fle exact_arith 35 (?t ! (j + 1))"
      and v: "calculate_sub_index_fp exact_arith 35 ''pm2_5'' =
                Inr (if feq exact_arith (?t ! (i + 1)) (?t ! i)
                     then num exact_arith (of_int (int i * 50))
                     else fround exact_arith
                            (fadd exact_arith (num exact_arith (of_int (int i * 50)))
                               (fmul exact_arith
                                  (fdiv exact_arith
                                     (num exact_arith (of_int ((int i + 1) * 50 - int i * 50)))
                                     (fsub exact_arith (?t ! (i + 1)) (?t ! i)))
                                  (fsub exact_arith 35 (?t ! i)))) 2)"
    using key tab by blast
  have "i \<noteq> 0" using i(2) by (cases i) (auto simp: exact_arith_def)
  moreover have "\<not> 1 < i" using i(3) by (auto simp: exact_arith_def dest: spec [of _ 1])
  ultimately have "i = 1" by simp
  moreover have "py_round (50 + 50 / (55.4 - 15.5) * (35 - 15.5)) 2 = 74.44"
    by code_simp
  ultimately have a: "calculate_sub_index_fp exact_arith 35 ''pm2_5'' = Inr 74.44"
    using v by (simp add: exact_arith_def)
  let ?d = "[0, 0, 1, 2, 3, 4] :: rat list"
  have dlen: "length ?d = 6" by simp
  have dtop: "fle exact_arith 0 (?d ! 5)" by (simp add: exact_arith_def)
  from sub_index_interpolation [OF dlen dtop comm zero] obtain k
    where k: "k < 5" "\<forall>j<k. \<not> fle exact_arith 0 (?d ! (j + 1))"
      and w: "scan_bands_fp exact_arith 0 ?d [0..<5] =
                Inr (if feq exact_arith (?d ! (k + 1)) (?d ! k)
                     then num exact_arith (of_int (int k * 50))
                     else fround exact_arith
                            (fadd exact_arith (num exact_arith (of_int (int k * 50)))
                               (fmul exact_arith
                                  (fdiv exact_arith
                                     (num exact_arith (of_int ((int k + 1) * 50 - int k * 50)))
                                     (fsub exact_arith (?d ! (k + 1)) (?d ! k)))
                                  (fsub exact_arith 0 (?d ! k)))) 2)"
    by blast
  have "k = 0" using k(2) by (cases k) (auto simp: exact_arith_def)
  with w have b: "scan_bands_fp exact_arith 0 ?d [0..<5] = Inr 0"
    by (simp add: exact_arith_def)
  from a b show ?thesis by simp
qed

subsection \<open>C2: saturation\<close>

text \<open>
  C2, as stated, fails at the top breakpoint itself: \<open>C = thresh[5]\<close> still satisfies
  \<open>C \<le> thresh[5]\<close>, so band 4 is selected and the result is its upper index 250. For PM10
  the top breakpoint is 500 and \<^verbatim>\<open>calculate_sub_index(500, 'pm10')\<close> is 250, not 500.
\<close>

theorem top_breakpoint_gives_250:
  "dict_get thresholds ''pm10'' = Inr [0, 50, 150, 350, 420, 500] \<and>
   [0, 50, 150, 350, 420, 500 :: rat] ! 5 = 500 \<and>
   calculate_sub_index 500 ''pm10'' = Inr 250 \<and>
   calculate_sub_index 500 ''pm10'' \<noteq> Inr 500"
proof -
  have "calculate_sub_index 500 ''pm10'' = Inr 250" by code_simp
  then show ?thesis by (simp add: dict_get_def thresholds_def)
qed

text \<open>
  C2, amended. For each of the six pollutants, every concentration strictly above the top
  breakpoint \<open>thresh[5]\<close> has sub-index exactly 500; at the top breakpoint itself the
  sub-index is 250.
\<close>

theorem saturation_above_top:
  assumes "p \<in> set pollutant_keys" and "dict_get thresholds p = Inr thresh"
  shows "(thresh ! 5 < C \<longrightarrow> calculate_sub_index C p = Inr 500) \<and>
         calculate_sub_index (thresh ! 5) p = Inr 250"
proof -
  note wf = thresholds_wf [OF assms(2)]
  have "calculate_sub_index C p = Inr 500" if "thresh ! 5 < C"
    using scan_bands_saturated [OF wf(1,2) that, of 0]
    by (simp add: calculate_sub_index_scan [OF assms(2)] del: upt_rec_numeral)
  moreover have "calculate_sub_index (thresh ! 5) p = Inr 250"
    using scan_bands_at_top [OF wf(1,2)]
    by (simp add: calculate_sub_index_scan [OF assms(2)] del: upt_rec_numeral)
  ultimately show ?thesis by blast
qed

theorem saturation_above_top_witness:
  "calculate_sub_index 45001 ''co'' = Inr 500 \<and> calculate_sub_index 45000 ''co'' = Inr 250"
proof -
  let ?t = "[0, 4000, 8000, 15000, 30000, 45000] :: rat list"
  have key: "''co'' \<in> set pollutant_keys" by (simp add: pollutant_keys_def)
  have tab: "dict_get thresholds ''co'' = Inr ?t" by (simp add: dict_get_def thresholds_def)
  have above: "?t ! 5 < 45001" by simp
  from saturation_above_top [OF key tab, of 45001] above show ?thesis by simp
qed

subsection \<open>C9: the attainable sub-indices\<close>

text \<open>
  C9. For each of the six pollutants and every concentration \<open>C \<ge> 0\<close>,
  \<^verbatim>\<open>calculate_sub_index\<close> returns a value that lies in \<open>[0, 250]\<close> or is exactly 500: no
  value strictly between 250 and 500 is attainable.
\<close>

theorem sub_index_range:
  assumes "p \<in> set pollutant_keys" and "0 \<le> C"
  shows "\<exists>v. calculate_sub_index C p = Inr v \<and> ((0 \<le> v \<and> v \<le> 250) \<or> v = 500)"
proof -
  from thresholds_defined [OF assms(1)] obtain thresh
    where tab: "dict_get thresholds p = Inr thresh" by blast
  note wf = thresholds_wf [OF tab]
  have "thresh ! 0 \<le> C" using wf(3) assms(2) by simp
  from scan_bands_range [OF wf(1,2) _ this] obtain v
    where "scan_bands C thresh [0..<5] = Inr v" "0 \<le> v" "v \<le> 250 \<or> v = 500"
    by auto
  then show ?thesis
    by (auto simp: calculate_sub_index_scan [OF tab] simp del: upt_rec_numeral)
qed

theorem sub_index_range_witness:
  "\<exists>v. calculate_sub_index 1234 ''o3'' = Inr v \<and> ((0 \<le> v \<and> v \<le> 250) \<or> v = 500)"
proof -
  have key: "''o3'' \<in> set pollutant_keys" by (simp add: pollutant_keys_def)
  have nonneg: "(0::rat) \<le> 1234" by simp
  from sub_index_range [OF key nonneg] show ?thesis .
qed

subsection \<open>C5: the breakpoint table\<close>

text \<open>
  C5. The table \<^verbatim>\<open>thresholds\<close> maps exactly the six pollutant keys, each to the six
  breakpoints of the specification, and every sequence of breakpoints is strictly
  increasing.
\<close>

theorem thresholds_table:
  "map fst thresholds = [''pm10'', ''pm2_5'', ''so2'', ''no2'', ''o3'', ''co''] \<and>
   dict_get thresholds ''pm10'' = Inr [0, 50, 150, 350, 420, 500] \<and>
   dict_get thresholds ''pm2_5'' = Inr [0, 15.5, 55.4, 150.4, 250.4, 350.4] \<and>
   dict_get thresholds ''so2'' = Inr [0, 52, 180, 400, 800, 1200] \<and>
   dict_get thresholds ''no2'' = Inr [0, 80, 200, 1130, 2260, 3000] \<and>
   dict_get thresholds ''o3'' = Inr [0, 120, 235, 400, 800, 1000] \<and>
   dict_get thresholds ''co'' = Inr [0, 4000, 8000, 15000, 30000, 45000] \<and>
   (\<forall>p thresh. dict_get thresholds p = Inr thresh \<longrightarrow>
      p \<in> set pollutant_keys \<and> length thresh = 6 \<and> sorted_wrt (<) thresh)"
proof -
  have "p \<in> set pollutant_keys" if "dict_get thresholds p = Inr thresh" for p thresh
    using that by (auto simp: dict_get_def thresholds_def pollutant_keys_def split: if_splits)
  then have "\<forall>p thresh. dict_get thresholds p = Inr thresh \<longrightarrow>
      p \<in> set pollutant_keys \<and> length thresh = 6 \<and> sorted_wrt (<) thresh"
    using thresholds_wf(1,2) by blast
  moreover have "map fst thresholds = [''pm10'', ''pm2_5'', ''so2'', ''no2'', ''o3'', ''co'']"
    by (simp add: thresholds_def)
  moreover have "dict_get thresholds ''pm10'' = Inr [0, 50, 150, 350, 420, 500]"
    "dict_get thresholds ''pm2_5'' = Inr [0, 15.5, 55.4, 150.4, 250.4, 350.4]"
    "dict_get thresholds ''so2'' = Inr [0, 52, 180, 400, 800, 1200]"
    "dict_get thresholds ''no2'' = Inr [0, 80, 200, 1130, 2260, 3000]"
    "dict_get thresholds ''o3'' = Inr [0, 120, 235, 400, 800, 1000]"
    "dict_get thresholds ''co'' = Inr [0, 4000, 8000, 15000, 30000, 45000]"
    by (simp_all add: dict_get_def thresholds_def)
  ultimately show ?thesis by blast
qed

theorem thresholds_table_witness:
  "''pm2_5'' \<in> set pollutant_keys \<and> length [0, 15.5, 55.4, 150.4, 250.4, 350.4 :: rat] = 6 \<and>
   sorted_wrt (<) [0, 15.5, 55.4, 150.4, 250.4, 350.4 :: rat]"
proof -
  have "dict_get thresholds ''pm2_5'' = Inr [0, 15.5, 55.4, 150.4, 250.4, 350.4]"
    by (simp add: dict_get_def thresholds_def)
  with thresholds_table show ?thesis by blast
qed

subsection \<open>C3: the index is the maximum, the dominant pollutant the first to reach it\<close>

lemma py_max_Cons: "py_max (x # xs) = Inr (Max (set (x # xs)))"
  unfolding py_max_def Max.set_eq_fold by simp

lemma list_index_first:
  assumes "v \<in> set xs"
  shows "\<exists>i<length xs. list_index xs v = Inr i \<and> xs ! i = v \<and> (\<forall>j<i. xs ! j \<noteq> v)"
  using assms
proof (induction xs)
  case Nil
  then show ?case by simp
next
  case (Cons y ys)
  show ?case
  proof (cases "y = v")
    case True
    then show ?thesis by simp
  next
    case False
    with Cons.prems have "v \<in> set ys" by simp
    from Cons.IH [OF this] obtain i
      where i: "i < length ys" "list_index ys v = Inr i" "ys ! i = v" "\<forall>j<i. ys ! j \<noteq> v"
      by blast
    have "\<forall>j<Suc i. (y # ys) ! j \<noteq> v"
      using False i(4) by (auto simp: less_Suc_eq_0_disj)
    with False i(1-3) show ?thesis
      by (intro exI [of _ "Suc i"]) simp
  qed
qed

lemma aggregate_max_first:
  assumes "length sub_indices = 6"
  shows "\<exists>i<6. aggregate sub_indices = Inr (Max (set sub_indices), sub_indices, pollutants ! i)
           \<and> sub_indices ! i = Max (set sub_indices)
           \<and> (\<forall>j<i. sub_indices ! j < Max (set sub_indices))"
proof -
  from assms obtain x xs where xs: "sub_indices = x # xs" by (cases sub_indices) auto
  have fin: "finite (set sub_indices)" "set sub_indices \<noteq> {}" using xs by simp_all
  have mx: "py_max sub_indices = Inr (Max (set sub_indices))"
    unfolding xs by (rule py_max_Cons)
  have "Max (set sub_indices) \<in> set sub_indices" using fin by (rule Max_in)
  from list_index_first [OF this] obtain i
    where i: "i < length sub_indices" "list_index sub_indices (Max (set sub_indices)) = Inr i"
      "sub_indices ! i = Max (set sub_indices)" "\<forall>j<i. sub_indices ! j \<noteq> Max (set sub_indices)"
    by blast
  have lt: "sub_indices ! j < Max (set sub_indices)" if "j < i" for j
  proof -
    have "sub_indices ! j \<in> set sub_indices" using that i(1) by simp
    then have "sub_indices ! j \<le> Max (set sub_indices)" using fin(1) by simp
    with i(4) that show ?thesis by (simp add: order_less_le)
  qed
  have "list_get pollutants i = Inr (pollutants ! i)"
    using i(1) assms by (simp add: list_get_def pollutants_def)
  with mx i(2) have "aggregate sub_indices =
      Inr (Max (set sub_indices), sub_indices, pollutants ! i)"
    by (simp add: aggregate_def)
  with i(1,3) lt assms show ?thesis by auto
qed

lemma calculate_sub_index_total:
  assumes "p \<in> set pollutant_keys"
  shows "\<exists>v. calculate_sub_index C p = Inr v"
proof -
  from thresholds_defined [OF assms] obtain thresh
    where tab: "dict_get thresholds p = Inr thresh" by blast
  show ?thesis
    unfolding calculate_sub_index_scan [OF tab]
    using scan_bands_refines [OF thresholds_wf(1) [OF tab]] by blast
qed

lemma calculate_ispu_manual_aggregate:
  assumes "calculate_sub_index pm10 ''pm10'' = Inr s0"
    and "calculate_sub_index pm2_5 ''pm2_5'' = Inr s1"
    and "calculate_sub_index so2 ''so2'' = Inr s2"
    and "calculate_sub_index no2 ''no2'' = Inr s3"
    and "calculate_sub_index o3 ''o3'' = Inr s4"
    and "calculate_sub_index (co * 1000) ''co'' = Inr s5"
  shows "calculate_ispu_manual pm10 pm2_5 so2 no2 o3 co = aggregate [s0, s1, s2, s3, s4, s5]"
  using assms by (simp add: calculate_ispu_manual_def)

text \<open>
  C3. For every input, the six calls of \<^verbatim>\<open>calculate_sub_index\<close> return sub-indices
  \<open>s0, \<dots>, s5\<close>, and \<^verbatim>\<open>calculate_ispu_manual\<close> returns their maximum, the list of the six,
  and the name at position \<open>i\<close> of the fixed order PM10, PM2.5, SO2, NO2, O3, CO, where \<open>i\<close>
  is the first position whose sub-index equals the maximum: every earlier sub-index is
  strictly smaller.
\<close>

theorem ispu_is_first_maximum:
  "\<exists>s0 s1 s2 s3 s4 s5 i.
     calculate_sub_index pm10 ''pm10'' = Inr s0 \<and>
     calculate_sub_index pm2_5 ''pm2_5'' = Inr s1 \<and>
     calculate_sub_index so2 ''so2'' = Inr s2 \<and>
     calculate_sub_index no2 ''no2'' = Inr s3 \<and>
     calculate_sub_index o3 ''o3'' = Inr s4 \<and>
     calculate_sub_index (co * 1000) ''co'' = Inr s5 \<and>
     i < 6 \<and>
     calculate_ispu_manual pm10 pm2_5 so2 no2 o3 co =
       Inr (Max {s0, s1, s2, s3, s4, s5}, [s0, s1, s2, s3, s4, s5],
            [''PM10'', ''PM2.5'', ''SO'' @ [CHR 0xE2, CHR 0x82, CHR 0x82],
             ''NO'' @ [CHR 0xE2, CHR 0x82, CHR 0x82], ''O'' @ [CHR 0xE2, CHR 0x82, CHR 0x83],
             ''CO''] ! i) \<and>
     [s0, s1, s2, s3, s4, s5] ! i = Max {s0, s1, s2, s3, s4, s5} \<and>
     (\<forall>j<i. [s0, s1, s2, s3, s4, s5] ! j < Max {s0, s1, s2, s3, s4, s5})"
proof -
  have keys: "''pm10'' \<in> set pollutant_keys" "''pm2_5'' \<in> set pollutant_keys"
    "''so2'' \<in> set pollutant_keys" "''no2'' \<in> set pollutant_keys"
    "''o3'' \<in> set pollutant_keys" "''co'' \<in> set pollutant_keys"
    by (simp_all add: pollutant_keys_def)
  obtain s0 where s0: "calculate_sub_index pm10 ''pm10'' = Inr s0"
    using calculate_sub_index_total [OF keys(1)] by blast
  obtain s1 where s1: "calculate_sub_index pm2_5 ''pm2_5'' = Inr s1"
    using calculate_sub_index_total [OF keys(2)] by blast
  obtain s2 where s2: "calculate_sub_index so2 ''so2'' = Inr s2"
    using calculate_sub_index_total [OF keys(3)] by blast
  obtain s3 where s3: "calculate_sub_index no2 ''no2'' = Inr s3"
    using calculate_sub_index_total [OF keys(4)] by blast
  obtain s4 where s4: "calculate_sub_index o3 ''o3'' = Inr s4"
    using calculate_sub_index_total [OF keys(5)] by blast
  obtain s5 where s5: "calculate_sub_index (co * 1000) ''co'' = Inr s5"
    using calculate_sub_index_total [OF keys(6)] by blast
  let ?subs = "[s0, s1, s2, s3, s4, s5]"
  have "length ?subs = 6" by simp
  from aggregate_max_first [OF this] obtain i
    where i: "i < 6" "aggregate ?subs = Inr (Max (set ?subs), ?subs, pollutants ! i)"
      "?subs ! i = Max (set ?subs)" "\<forall>j<i. ?subs ! j < Max (set ?subs)"
    by blast
  have set: "set ?subs = {s0, s1, s2, s3, s4, s5}" by simp
  have "calculate_ispu_manual pm10 pm2_5 so2 no2 o3 co =
      Inr (Max {s0, s1, s2, s3, s4, s5}, ?subs, pollutants ! i)"
    using i(2) unfolding calculate_ispu_manual_aggregate [OF s0 s1 s2 s3 s4 s5] set .
  with s0 s1 s2 s3 s4 s5 i(1,3,4) show ?thesis
    unfolding set pollutants_def by blast
qed

theorem ispu_is_first_maximum_witness:
  "calculate_ispu_manual 50 0 0 0 0 4 = Inr (50, [50, 0, 0, 0, 0, 50], ''PM10'')"
proof -
  have c: "calculate_sub_index 50 ''pm10'' = Inr 50" "calculate_sub_index 0 ''pm2_5'' = Inr 0"
    "calculate_sub_index 0 ''so2'' = Inr 0" "calculate_sub_index 0 ''no2'' = Inr 0"
    "calculate_sub_index 0 ''o3'' = Inr 0" "calculate_sub_index (4 * 1000) ''co'' = Inr 50"
    by code_simp+
  from ispu_is_first_maximum [of 50 0 0 0 0 4] obtain s0 s1 s2 s3 s4 s5 i
    where s: "calculate_sub_index 50 ''pm10'' = Inr s0" "calculate_sub_index 0 ''pm2_5'' = Inr s1"
        "calculate_sub_index 0 ''so2'' = Inr s2" "calculate_sub_index 0 ''no2'' = Inr s3"
        "calculate_sub_index 0 ''o3'' = Inr s4" "calculate_sub_index (4 * 1000) ''co'' = Inr s5"
      and r: "calculate_ispu_manual 50 0 0 0 0 4 =
        Inr (Max {s0, s1, s2, s3, s4, s5}, [s0, s1, s2, s3, s4, s5],
             [''PM10'', ''PM2.5'', ''SO'' @ [CHR 0xE2, CHR 0x82, CHR 0x82],
              ''NO'' @ [CHR 0xE2, CHR 0x82, CHR 0x82], ''O'' @ [CHR 0xE2, CHR 0x82, CHR 0x83],
              ''CO''] ! i)"
      and first: "\<forall>j<i. [s0, s1, s2, s3, s4, s5] ! j < Max {s0, s1, s2, s3, s4, s5}"
    by blast
  from s c have v: "s0 = 50" "s1 = 0" "s2 = 0" "s3 = 0" "s4 = 0" "s5 = 50" by simp_all
  have m: "Max {s0, s1, s2, s3, s4, s5} = 50" unfolding v by simp
  have "i = 0"
  proof (rule ccontr)
    assume "i \<noteq> 0"
    then have "[s0, s1, s2, s3, s4, s5] ! 0 < Max {s0, s1, s2, s3, s4, s5}"
      using first by blast
    then show False unfolding m using v(1) by simp
  qed
  with r show ?thesis unfolding m by (simp add: v)
qed

subsection \<open>C6: monotonicity in a single pollutant\<close>

lemma sub_index_mono:
  assumes "p \<in> set pollutant_keys" and "0 \<le> c1" and "c1 \<le> c2"
  shows "\<exists>v1 v2. calculate_sub_index c1 p = Inr v1 \<and> calculate_sub_index c2 p = Inr v2
           \<and> v1 \<le> v2"
proof -
  from thresholds_defined [OF assms(1)] obtain thresh
    where tab: "dict_get thresholds p = Inr thresh" by blast
  note wf = thresholds_wf [OF tab]
  have "thresh ! 0 \<le> c1" using wf(3) assms(2) by simp
  from scan_bands_mono [OF wf(1,2) _ this assms(3)] show ?thesis
    by (simp add: calculate_sub_index_scan [OF tab] del: upt_rec_numeral)
qed

lemma sub_index_zero:
  "calculate_sub_index 0 ''pm10'' = Inr 0" "calculate_sub_index 0 ''pm2_5'' = Inr 0"
  "calculate_sub_index 0 ''so2'' = Inr 0" "calculate_sub_index 0 ''no2'' = Inr 0"
  "calculate_sub_index 0 ''o3'' = Inr 0" "calculate_sub_index (0 * 1000) ''co'' = Inr 0"
  by code_simp+

lemma ispu_value:
  assumes "calculate_sub_index pm10 ''pm10'' = Inr s0"
    and "calculate_sub_index pm2_5 ''pm2_5'' = Inr s1"
    and "calculate_sub_index so2 ''so2'' = Inr s2"
    and "calculate_sub_index no2 ''no2'' = Inr s3"
    and "calculate_sub_index o3 ''o3'' = Inr s4"
    and "calculate_sub_index (co * 1000) ''co'' = Inr s5"
  shows "\<exists>r. calculate_ispu_manual pm10 pm2_5 so2 no2 o3 co = Inr r
           \<and> fst r = Max {s0, s1, s2, s3, s4, s5}"
proof -
  have "length [s0, s1, s2, s3, s4, s5] = 6" by simp
  from aggregate_max_first [OF this] show ?thesis
    unfolding calculate_ispu_manual_aggregate [OF assms] by auto
qed

text \<open>
  C6. For each of the six arguments of \<^verbatim>\<open>calculate_ispu_manual\<close> and all concentrations
  \<open>0 \<le> c1 \<le> c2\<close>: with the other five arguments 0, both calls return, and the overall
  index (the first component of the result) at \<open>c2\<close> is at least the one at \<open>c1\<close>.
\<close>

theorem ispu_monotone_single_pollutant:
  assumes "0 \<le> c1" and "c1 \<le> c2"
  shows "(\<exists>r1 r2. calculate_ispu_manual c1 0 0 0 0 0 = Inr r1 \<and>
              calculate_ispu_manual c2 0 0 0 0 0 = Inr r2 \<and> fst r1 \<le> fst r2) \<and>
         (\<exists>r1 r2. calculate_ispu_manual 0 c1 0 0 0 0 = Inr r1 \<and>
              calculate_ispu_manual 0 c2 0 0 0 0 = Inr r2 \<and> fst r1 \<le> fst r2) \<and>
         (\<exists>r1 r2. calculate_ispu_manual 0 0 c1 0 0 0 = Inr r1 \<and>
              calculate_ispu_manual 0 0 c2 0 0 0 = Inr r2 \<and> fst r1 \<le> fst r2) \<and>
         (\<exists>r1 r2. calculate_ispu_manual 0 0 0 c1 0 0 = Inr r1 \<and>
              calculate_ispu_manual 0 0 0 c2 0 0 = Inr r2 \<and> fst r1 \<le> fst r2) \<and>
         (\<exists>r1 r2. calculate_ispu_manual 0 0 0 0 c1 0 = Inr r1 \<and>
              calculate_ispu_manual 0 0 0 0 c2 0 = Inr r2 \<and> fst r1 \<le> fst r2) \<and>
         (\<exists>r1 r2. calculate_ispu_manual 0 0 0 0 0 c1 = Inr r1 \<and>
              calculate_ispu_manual 0 0 0 0 0 c2 = Inr r2 \<and> fst r1 \<le> fst r2)"
proof -
  have keys: "''pm10'' \<in> set pollutant_keys" "''pm2_5'' \<in> set pollutant_keys"
    "''so2'' \<in> set pollutant_keys" "''no2'' \<in> set pollutant_keys"
    "''o3'' \<in> set pollutant_keys" "''co'' \<in> set pollutant_keys"
    by (simp_all add: pollutant_keys_def)
  have p0: "\<exists>r1 r2. calculate_ispu_manual c1 0 0 0 0 0 = Inr r1 \<and>
      calculate_ispu_manual c2 0 0 0 0 0 = Inr r2 \<and> fst r1 \<le> fst r2"
  proof -
    from sub_index_mono [OF keys(1) assms] obtain v1 v2
      where v: "calculate_sub_index c1 ''pm10'' = Inr v1"
        "calculate_sub_index c2 ''pm10'' = Inr v2" "v1 \<le> v2"
      by blast
    from ispu_value [OF v(1) sub_index_zero(2) sub_index_zero(3) sub_index_zero(4) sub_index_zero(5) sub_index_zero(6)] obtain r1
      where r1: "calculate_ispu_manual c1 0 0 0 0 0 = Inr r1" "fst r1 = Max {v1, 0, 0, 0, 0, 0}"
      by blast
    from ispu_value [OF v(2) sub_index_zero(2) sub_index_zero(3) sub_index_zero(4) sub_index_zero(5) sub_index_zero(6)] obtain r2
      where r2: "calculate_ispu_manual c2 0 0 0 0 0 = Inr r2" "fst r2 = Max {v2, 0, 0, 0, 0, 0}"
      by blast
    have "fst r1 \<le> fst r2" unfolding r1(2) r2(2) using v(3) by simp
    with r1(1) r2(1) show ?thesis by blast
  qed
  have p1: "\<exists>r1 r2. calculate_ispu_manual 0 c1 0 0 0 0 = Inr r1 \<and>
      calculate_ispu_manual 0 c2 0 0 0 0 = Inr r2 \<and> fst r1 \<le> fst r2"
  proof -
    from sub_index_mono [OF keys(2) assms] obtain v1 v2
      where v: "calculate_sub_index c1 ''pm2_5'' = Inr v1"
        "calculate_sub_index c2 ''pm2_5'' = Inr v2" "v1 \<le> v2"
      by blast
    from ispu_value [OF sub_index_zero(1) v(1) sub_index_zero(3) sub_index_zero(4) sub_index_zero(5) sub_index_zero(6)] obtain r1
      where r1: "calculate_ispu_manual 0 c1 0 0 0 0 = Inr r1" "fst r1 = Max {0, v1, 0, 0, 0, 0}"
      by blast
    from ispu_value [OF sub_index_zero(1) v(2) sub_index_zero(3) sub_index_zero(4) sub_index_zero(5) sub_index_zero(6)] obtain r2
      where r2: "calculate_ispu_manual 0 c2 0 0 0 0 = Inr r2" "fst r2 = Max {0, v2, 0, 0, 0, 0}"
      by blast
    have "fst r1 \<le> fst r2" unfolding r1(2) r2(2) using v(3) by simp
    with r1(1) r2(1) show ?thesis by blast
  qed
  have p2: "\<exists>r1 r2. calculate_ispu_manual 0 0 c1 0 0 0 = Inr r1 \<and>
      calculate_ispu_manual 0 0 c2 0 0 0 = Inr r2 \<and> fst r1 \<le> fst r2"
  proof -
    from sub_index_mono [OF keys(3) assms] obtain v1 v2
      where v: "calculate_sub_index c1 ''so2'' = Inr v1"
        "calculate_sub_index c2 ''so2'' = Inr v2" "v1 \<le> v2"
      by blast
    from ispu_value [OF sub_index_zero(1) sub_index_zero(2) v(1) sub_index_zero(4) sub_index_zero(5) sub_index_zero(6)] obtain r1
      where r1: "calculate_ispu_manual 0 0 c1 0 0 0 = Inr r1" "fst r1 = Max {0, 0, v1, 0, 0, 0}"
      by blast
    from ispu_value [OF sub_index_zero(1) sub_index_zero(2) v(2) sub_index_zero(4) sub_index_zero(5) sub_index_zero(6)] obtain r2
      where r2: "calculate_ispu_manual 0 0 c2 0 0 0 = Inr r2" "fst r2 = Max {0, 0, v2, 0, 0, 0}"
      by blast
    have "fst r1 \<le> fst r2" unfolding r1(2) r2(2) using v(3) by simp
    with r1(1) r2(1) show ?thesis by blast
  qed
  have p3: "\<exists>r1 r2. calculate_ispu_manual 0 0 0 c1 0 0 = Inr r1 \<and>
      calculate_ispu_manual 0 0 0 c2 0 0 = Inr r2 \<and> fst r1 \<le> fst r2"
  proof -
    from sub_index_mono [OF keys(4) assms] obtain v1 v2
      where v: "calculate_sub_index c1 ''no2'' = Inr v1"
        "calculate_sub_index c2 ''no2'' = Inr v2" "v1 \<le> v2"
      by blast
    from ispu_value [OF sub_index_zero(1) sub_index_zero(2) sub_index_zero(3) v(1) sub_index_zero(5) sub_index_zero(6)] obtain r1
      where r1: "calculate_ispu_manual 0 0 0 c1 0 0 = Inr r1" "fst r1 = Max {0, 0, 0, v1, 0, 0}"
      by blast
    from ispu_value [OF sub_index_zero(1) sub_index_zero(2) sub_index_zero(3) v(2) sub_index_zero(5) sub_index_zero(6)] obtain r2
      where r2: "calculate_ispu_manual 0 0 0 c2 0 0 = Inr r2" "fst r2 = Max {0, 0, 0, v2, 0, 0}"
      by blast
    have "fst r1 \<le> fst r2" unfolding r1(2) r2(2) using v(3) by simp
    with r1(1) r2(1) show ?thesis by blast
  qed
  have p4: "\<exists>r1 r2. calculate_ispu_manual 0 0 0 0 c1 0 = Inr r1 \<and>
      calculate_ispu_manual 0 0 0 0 c2 0 = Inr r2 \<and> fst r1 \<le> fst r2"
  proof -
    from sub_index_mono [OF keys(5) assms] obtain v1 v2
      where v: "calculate_sub_index c1 ''o3'' = Inr v1"
        "calculate_sub_index c2 ''o3'' = Inr v2" "v1 \<le> v2"
      by blast
    from ispu_value [OF sub_index_zero(1) sub_index_zero(2) sub_index_zero(3) sub_index_zero(4) v(1) sub_index_zero(6)] obtain r1
      where r1: "calculate_ispu_manual 0 0 0 0 c1 0 = Inr r1" "fst r1 = Max {0, 0, 0, 0, v1, 0}"
      by blast
    from ispu_value [OF sub_index_zero(1) sub_index_zero(2) sub_index_zero(3) sub_index_zero(4) v(2) sub_index_zero(6)] obtain r2
      where r2: "calculate_ispu_manual 0 0 0 0 c2 0 = Inr r2" "fst r2 = Max {0, 0, 0, 0, v2, 0}"
      by blast
    have "fst r1 \<le> fst r2" unfolding r1(2) r2(2) using v(3) by simp
    with r1(1) r2(1) show ?thesis by blast
  qed
  have scaled: "0 \<le> c1 * 1000" "c1 * 1000 \<le> c2 * 1000" using assms by simp_all
  have p5: "\<exists>r1 r2. calculate_ispu_manual 0 0 0 0 0 c1 = Inr r1 \<and>
      calculate_ispu_manual 0 0 0 0 0 c2 = Inr r2 \<and> fst r1 \<le> fst r2"
  proof -
    from sub_index_mono [OF keys(6) scaled] obtain v1 v2
      where v: "calculate_sub_index (c1 * 1000) ''co'' = Inr v1"
        "calculate_sub_index (c2 * 1000) ''co'' = Inr v2" "v1 \<le> v2"
      by blast
    from ispu_value [OF sub_index_zero(1) sub_index_zero(2) sub_index_zero(3) sub_index_zero(4) sub_index_zero(5) v(1)] obtain r1
      where r1: "calculate_ispu_manual 0 0 0 0 0 c1 = Inr r1" "fst r1 = Max {0, 0, 0, 0, 0, v1}"
      by blast
    from ispu_value [OF sub_index_zero(1) sub_index_zero(2) sub_index_zero(3) sub_index_zero(4) sub_index_zero(5) v(2)] obtain r2
      where r2: "calculate_ispu_manual 0 0 0 0 0 c2 = Inr r2" "fst r2 = Max {0, 0, 0, 0, 0, v2}"
      by blast
    have "fst r1 \<le> fst r2" unfolding r1(2) r2(2) using v(3) by simp
    with r1(1) r2(1) show ?thesis by blast
  qed
  from p0 p1 p2 p3 p4 p5 show ?thesis by (intro conjI)
qed

theorem ispu_monotone_single_pollutant_witness:
  "\<exists>r1 r2. calculate_ispu_manual 0 0 0 0 0 3 = Inr r1 \<and>
      calculate_ispu_manual 0 0 0 0 0 50 = Inr r2 \<and> fst r1 \<le> fst r2"
proof -
  have h: "(0::rat) \<le> 3" "(3::rat) \<le> 50" by simp_all
  from ispu_monotone_single_pollutant [OF h] show ?thesis by blast
qed

subsection \<open>C4: the category of an index\<close>

text \<open>
  C4. \<^verbatim>\<open>classify_based_on_ispu\<close> depends on the index alone and closes each band above:
  an index in \<open>[0, 50]\<close> is "Baik" (good), in \<open>(50, 100]\<close> "Sedang" (moderate), in
  \<open>(100, 200]\<close> "Tidak Sehat" (unhealthy), in \<open>(200, 300]\<close> "Sangat Tidak Sehat" (very
  unhealthy) and above 300 "Berbahaya" (hazardous); in particular 50 is good, 50.01
  moderate, 300 very unhealthy and 300.01 hazardous. Each label ends with a space and
  the coloured circle of the source, written as its UTF-8 bytes.
\<close>

theorem category_boundaries:
  "(0 \<le> x \<and> x \<le> 50 \<longrightarrow>
      classify_based_on_ispu x = ''Baik '' @ [CHR 0xF0, CHR 0x9F, CHR 0x9F, CHR 0xA2]) \<and>
   (50 < x \<and> x \<le> 100 \<longrightarrow>
      classify_based_on_ispu x = ''Sedang '' @ [CHR 0xF0, CHR 0x9F, CHR 0x9F, CHR 0xA1]) \<and>
   (100 < x \<and> x \<le> 200 \<longrightarrow>
      classify_based_on_ispu x = ''Tidak Sehat '' @ [CHR 0xF0, CHR 0x9F, CHR 0x9F, CHR 0xA0]) \<and>
   (200 < x \<and> x \<le> 300 \<longrightarrow>
      classify_based_on_ispu x = ''Sangat Tidak Sehat '' @ [CHR 0xF0, CHR 0x9F, CHR 0x94, CHR 0xB4]) \<and>
   (300 < x \<longrightarrow>
      classify_based_on_ispu x = ''Berbahaya '' @ [CHR 0xF0, CHR 0x9F, CHR 0x9F, CHR 0xA3]) \<and>
   classify_based_on_ispu 50 = ''Baik '' @ [CHR 0xF0, CHR 0x9F, CHR 0x9F, CHR 0xA2] \<and>
   classify_based_on_ispu 50.01 = ''Sedang '' @ [CHR 0xF0, CHR 0x9F, CHR 0x9F, CHR 0xA1] \<and>
   classify_based_on_ispu 300 =
     ''Sangat Tidak Sehat '' @ [CHR 0xF0, CHR 0x9F, CHR 0x94, CHR 0xB4] \<and>
   classify_based_on_ispu 300.01 = ''Berbahaya '' @ [CHR 0xF0, CHR 0x9F, CHR 0x9F, CHR 0xA3]"
  by (simp add: classify_based_on_ispu_def)

theorem category_boundaries_witness:
  "classify_based_on_ispu 0 = ''Baik '' @ [CHR 0xF0, CHR 0x9F, CHR 0x9F, CHR 0xA2] \<and>
   classify_based_on_ispu 74.44 = ''Sedang '' @ [CHR 0xF0, CHR 0x9F, CHR 0x9F, CHR 0xA1] \<and>
   classify_based_on_ispu 150 = ''Tidak Sehat '' @ [CHR 0xF0, CHR 0x9F, CHR 0x9F, CHR 0xA0] \<and>
   classify_based_on_ispu 250 =
     ''Sangat Tidak Sehat '' @ [CHR 0xF0, CHR 0x9F, CHR 0x94, CHR 0xB4] \<and>
   classify_based_on_ispu 500 = ''Berbahaya '' @ [CHR 0xF0, CHR 0x9F, CHR 0x9F, CHR 0xA3]"
proof (intro conjI)
  show "classify_based_on_ispu 0 = ''Baik '' @ [CHR 0xF0, CHR 0x9F, CHR 0x9F, CHR 0xA2]"
    using category_boundaries [of 0] by simp
  show "classify_based_on_ispu 74.44 = ''Sedang '' @ [CHR 0xF0, CHR 0x9F, CHR 0x9F, CHR 0xA1]"
    using category_boundaries [of "74.44"] by simp
  show "classify_based_on_ispu 150 = ''Tidak Sehat '' @ [CHR 0xF0, CHR 0x9F, CHR 0x9F, CHR 0xA0]"
    using category_boundaries [of 150] by simp
  show "classify_based_on_ispu 250 =
      ''Sangat Tidak Sehat '' @ [CHR 0xF0, CHR 0x9F, CHR 0x94, CHR 0xB4]"
    using category_boundaries [of 250] by simp
  show "classify_based_on_ispu 500 = ''Berbahaya '' @ [CHR 0xF0, CHR 0x9F, CHR 0x9F, CHR 0xA3]"
    using category_boundaries [of 500] by simp
qed

subsection \<open>C10: the two classifiers agree\<close>

text \<open>
  C10. For every index \<open>x\<close>, \<^verbatim>\<open>classify_air_quality\<close> and \<^verbatim>\<open>classify_based_on_ispu\<close> cut
  the range at the same thresholds 50, 100, 200 and 300, and the string returned by
  \<^verbatim>\<open>classify_based_on_ispu\<close> is the label returned first by \<^verbatim>\<open>classify_air_quality\<close>
  followed by a space and the coloured circle of the category.
\<close>

theorem classifiers_agree:
  "(x \<le> 50 \<longleftrightarrow> fst (classify_air_quality x) = ''Baik'') \<and>
   (50 < x \<and> x \<le> 100 \<longleftrightarrow> fst (classify_air_quality x) = ''Sedang'') \<and>
   (100 < x \<and> x \<le> 200 \<longleftrightarrow> fst (classify_air_quality x) = ''Tidak Sehat'') \<and>
   (200 < x \<and> x \<le> 300 \<longleftrightarrow> fst (classify_air_quality x) = ''Sangat Tidak Sehat'') \<and>
   (300 < x \<longleftrightarrow> fst (classify_air_quality x) = ''Berbahaya'') \<and>
   classify_based_on_ispu x =
     fst (classify_air_quality x) @ '' '' @
       (if x \<le> 50 then [CHR 0xF0, CHR 0x9F, CHR 0x9F, CHR 0xA2]
        else if x \<le> 100 then [CHR 0xF0, CHR 0x9F, CHR 0x9F, CHR 0xA1]
        else if x \<le> 200 then [CHR 0xF0, CHR 0x9F, CHR 0x9F, CHR 0xA0]
        else if x \<le> 300 then [CHR 0xF0, CHR 0x9F, CHR 0x94, CHR 0xB4]
        else [CHR 0xF0, CHR 0x9F, CHR 0x9F, CHR 0xA3])"
  by (simp add: classify_based_on_ispu_def classify_air_quality_def)

subsection \<open>C8: the regression scenario\<close>

text \<open>
  C8, as stated, fails in its middle part: the PM2.5 concentration 35 lies above the first
  breakpoint 15.5, so it is not in band 0 and its sub-index is not between 0 and 50. It
  is interpolated between 15.5 and 55.4 in band 1 (index range 50 to 100) and is 74.44.
\<close>

theorem scenario_pm25_not_band0:
  "calculate_sub_index 35 ''pm2_5'' = Inr 74.44 \<and> \<not> (74.44 :: rat) \<le> 50"
proof -
  have "calculate_sub_index 35 ''pm2_5'' = Inr 74.44" by code_simp
  then show ?thesis by simp
qed

text \<open>
  C8, amended. For the inputs \<open>pm10 = 50\<close>, \<open>pm2_5 = 35\<close>, \<open>so2 = 20\<close>, \<open>no2 = 40\<close>,
  \<open>o3 = 50\<close>, \<open>co = 4.0\<close>: CO is scaled to 4000, its first breakpoint, with sub-index 50;
  the PM2.5 concentration 35 is interpolated between 15.5 and 55.4 in band 1 with
  sub-index 74.44; the overall index 74.44 is the maximum of the six sub-indices
  \<open>50, 74.44, 19.23, 25, 20.83, 50\<close>, PM2.5 is dominant, and the category of 74.44 is
  "Sedang" (moderate).
\<close>

theorem scenario_fixture:
  "(4.0 :: rat) * 1000 = 4000 \<and>
   dict_get thresholds ''co'' = Inr [0, 4000, 8000, 15000, 30000, 45000] \<and>
   calculate_sub_index 4000 ''co'' = Inr 50 \<and>
   dict_get thresholds ''pm2_5'' = Inr [0, 15.5, 55.4, 150.4, 250.4, 350.4] \<and>
   (15.5 :: rat) < 35 \<and> (35 :: rat) \<le> 55.4 \<and>
   calculate_sub_index 35 ''pm2_5'' = Inr 74.44 \<and>
   calculate_ispu_manual 50 35 20 40 50 4.0 =
     Inr (74.44, [50, 74.44, 19.23, 25, 20.83, 50], ''PM2.5'') \<and>
   Max {50, 74.44, 19.23, 25, 20.83, 50 :: rat} = 74.44 \<and>
   classify_based_on_ispu 74.44 = ''Sedang '' @ [CHR 0xF0, CHR 0x9F, CHR 0x9F, CHR 0xA1] \<and>
   prediction_page 50 35 20 10 40 50 4.0 10 =
     Predicted 74.44 [50, 74.44, 19.23, 25, 20.83, 50] ''PM2.5''
       (''Sedang '' @ [CHR 0xF0, CHR 0x9F, CHR 0x9F, CHR 0xA1])"
proof -
  have co: "calculate_sub_index 4000 ''co'' = Inr 50" by code_simp
  have pm: "calculate_sub_index 35 ''pm2_5'' = Inr 74.44" by code_simp
  have all: "calculate_ispu_manual 50 35 20 40 50 4.0 =
      Inr (74.44, [50, 74.44, 19.23, 25, 20.83, 50], ''PM2.5'')"
    by code_simp
  have cls: "classify_based_on_ispu 74.44 = ''Sedang '' @ [CHR 0xF0, CHR 0x9F, CHR 0x9F, CHR 0xA1]"
    by (simp add: classify_based_on_ispu_def)
  have page: "prediction_page 50 35 20 10 40 50 4.0 10 =
      Predicted 74.44 [50, 74.44, 19.23, 25, 20.83, 50] ''PM2.5''
        (''Sedang '' @ [CHR 0xF0, CHR 0x9F, CHR 0x9F, CHR 0xA1])"
    by code_simp
  have tabs: "dict_get thresholds ''co'' = Inr [0, 4000, 8000, 15000, 30000, 45000]"
    "dict_get thresholds ''pm2_5'' = Inr [0, 15.5, 55.4, 150.4, 250.4, 350.4]"
    by (simp_all add: dict_get_def thresholds_def)
  have mx: "Max {50, 74.44, 19.23, 25, 20.83, 50 :: rat} = 74.44" by simp
  have ar: "(4.0 :: rat) * 1000 = 4000" "(15.5 :: rat) < 35" "(35 :: rat) \<le> 55.4" by simp_all
  show ?thesis
    by (intro conjI) (fact co pm all cls page tabs mx ar)+
qed

subsection \<open>C7: input validation and the gate\<close>

lemma update_fresh:
  assumes "k \<notin> fst ` set ps"
  shows "AList.update k v ps = ps @ [(k, v)]"
  using assms by (induction ps) auto

lemma lower_keys_fold:
  assumes "distinct (map (\<lambda>x. lower (fst x)) xs)"
    and "\<forall>x \<in> set xs. lower (fst x) \<notin> fst ` set acc"
  shows "fold (\<lambda>(k, v) d. AList.update (lower k) v d) xs acc
           = acc @ map (\<lambda>(k, v). (lower k, v)) xs"
  using assms
proof (induction xs arbitrary: acc)
  case Nil
  then show ?case by simp
next
  case (Cons x xs)
  obtain k v where x: "x = (k, v)" by (cases x)
  have fresh: "lower k \<notin> fst ` set acc" using Cons.prems(2) x by simp
  have d: "distinct (map (\<lambda>x. lower (fst x)) xs)" using Cons.prems(1) by simp
  have "\<forall>y \<in> set xs. lower (fst y) \<notin> fst ` set (acc @ [(lower k, v)])"
    using Cons.prems x by (auto simp: image_iff)
  from Cons.IH [OF d this] show ?case
    by (simp add: x update_fresh [OF fresh])
qed

lemma lower_keys_distinct:
  assumes "distinct (map (\<lambda>x. lower (fst x)) inputs)"
  shows "lower_keys lower inputs = map (\<lambda>(k, v). (lower k, v)) inputs"
  using lower_keys_fold [OF assms, of "[]"] by (simp add: lower_keys_def)

lemma check_ranges_messages:
  "check_ranges upper (map (\<lambda>(k, v). (lower k, v)) inputs) errors
     = errors @ concat (map (\<lambda>(k, v).
         if v < 0 then [upper (lower k) @ '' tidak boleh negatif'']
         else if 10000 < v then [upper (lower k) @ '' terlalu tinggi (maksimal 10000)'']
         else []) inputs)"
  by (induction inputs arbitrary: errors) (auto split: if_splits)

lemma length_messages:
  "length (concat (map (\<lambda>(k, v).
         if v < (0::rat) then [upper (lower k) @ '' tidak boleh negatif'']
         else if 10000 < v then [upper (lower k) @ '' terlalu tinggi (maksimal 10000)'']
         else []) inputs))
     = length (filter (\<lambda>(k, v). v < 0 \<or> 10000 < v) inputs)"
  by (induction inputs) (auto split: if_splits)

lemma co_value_distinct:
  assumes "distinct (map (\<lambda>x. lower (fst x)) inputs)"
  shows "(100::rat) < (case map_of (map (\<lambda>(k, v). (lower k, v)) inputs) ''co'' of
                        None \<Rightarrow> 0 | Some v \<Rightarrow> v)
           \<longleftrightarrow> (\<exists>(k, v) \<in> set inputs. lower k = ''co'' \<and> 100 < v)"
  using assms
proof (induction inputs)
  case Nil
  then show ?case by simp
next
  case (Cons x xs)
  obtain k v where x: "x = (k, v)" by (cases x)
  show ?case
  proof (cases "lower k = ''co''")
    case True
    then have "\<forall>(k', v') \<in> set xs. lower k' \<noteq> ''co''"
      using Cons.prems x by (auto simp: image_iff)
    with True show ?thesis by (auto simp: x)
  next
    case False
    with Cons show ?thesis by (auto simp: x)
  qed
qed

lemma co_count_distinct:
  assumes "distinct (map (\<lambda>x. lower (fst x)) inputs)"
  shows "length (filter (\<lambda>(k, v). lower k = ''co'' \<and> (100::rat) < v) inputs)
           = (if \<exists>(k, v) \<in> set inputs. lower k = ''co'' \<and> 100 < v then 1 else 0)"
  using assms
proof (induction inputs)
  case Nil
  then show ?case by simp
next
  case (Cons x xs)
  obtain k v where x: "x = (k, v)" by (cases x)
  show ?case
  proof (cases "lower k = ''co''")
    case True
    then have none: "\<forall>(k', v') \<in> set xs. lower k' \<noteq> ''co''"
      using Cons.prems x by (auto simp: image_iff)
    then have "filter (\<lambda>(k, v). lower k = ''co'' \<and> (100::rat) < v) xs = []"
      by (auto simp: filter_empty_conv)
    with True none show ?thesis by (auto simp: x)
  next
    case False
    with Cons show ?thesis by (auto simp: x)
  qed
qed

lemma validate_inputs_messages:
  assumes "distinct (map (\<lambda>x. lower (fst x)) inputs)"
  shows "validate_inputs lower upper inputs
           = concat (map (\<lambda>(k, v).
               if v < 0 then [upper (lower k) @ '' tidak boleh negatif'']
               else if 10000 < v then [upper (lower k) @ '' terlalu tinggi (maksimal 10000)'']
               else []) inputs)
             @ (if \<exists>(k, v) \<in> set inputs. lower k = ''co'' \<and> 100 < v then [co_message] else [])"
  using co_value_distinct [OF assms]
  by (simp add: validate_inputs_def Let_def lower_keys_distinct [OF assms]
        check_ranges_messages)

lemma validate_inputs_length:
  assumes "distinct (map (\<lambda>x. lower (fst x)) inputs)"
  shows "length (validate_inputs lower upper inputs)
           = length (filter (\<lambda>(k, v). v < 0 \<or> 10000 < v) inputs)
             + length (filter (\<lambda>(k, v). lower k = ''co'' \<and> 100 < v) inputs)"
  unfolding validate_inputs_messages [OF assms] length_append length_messages
    co_count_distinct [OF assms]
  by simp

lemma stopped_trace_no_engine:
  "\<forall>e \<in> set (Validate inputs # map (\<lambda>error. ShowError (cross_mark @ error)) errors @ [Stop]).
     \<not> is_engine_call e"
  by auto

text \<open>
  C7, as stated, fails in two places. A CO reading above 10000 is reported twice, once by
  the general range check and once by the CO check, so an offending field can have two
  messages: \<^verbatim>\<open>validate_inputs({'co': 20000})\<close> has two. And the keys are lowercased into a
  new dict first, where a later key replaces an earlier one that differs only in case:
  \<^verbatim>\<open>validate_inputs({'co': -5, 'CO': 3})\<close> is empty although one reading is negative.
\<close>

theorem validate_inputs_double_message:
  "validate_inputs ascii_lower ascii_upper [(''co'', 20000)]
     = [''CO terlalu tinggi (maksimal 10000)'', co_message] \<and>
   length (validate_inputs ascii_lower ascii_upper [(''co'', 20000)]) = 2 \<and>
   validate_inputs ascii_lower ascii_upper [(''co'', - 5), (''CO'', 3)] = []"
proof -
  have "validate_inputs ascii_lower ascii_upper [(''co'', 20000)]
      = [''CO terlalu tinggi (maksimal 10000)'', co_message]"
    by code_simp
  moreover have "validate_inputs ascii_lower ascii_upper [(''co'', - 5), (''CO'', 3)] = []"
    by code_simp
  ultimately show ?thesis by simp
qed

text \<open>
  C7, amended. Whatever \<^verbatim>\<open>str.lower\<close> and \<^verbatim>\<open>str.upper\<close> compute, for every input map whose
  keys stay distinct when lowercased: \<^verbatim>\<open>validate_inputs\<close> returns the empty list if and
  only if every reading is non-negative and at most 10000 and the reading under the key
  \<open>co\<close> is at most 100; its result is, in the order of the fields, one message for each
  reading that is negative or above 10000, naming the field in upper case, followed by
  one further message when CO is above 100. When the eight readings of the prediction
  page give any message, the page shows each message and stops, and its trace has no call
  of the engine; when they give none, the engine is called. With \<open>co = 150\<close> and the other
  readings in range (the eight lowercase keys being their own lowercase) the only message
  is the one for CO, and the page shows it and stops.
\<close>

theorem validate_inputs_gate:
  assumes "distinct (map (\<lambda>x. lower (fst x)) inputs)"
  shows "(validate_inputs lower upper inputs = [] \<longleftrightarrow>
            (\<forall>(k, v) \<in> set inputs. 0 \<le> v \<and> v \<le> 10000 \<and> (lower k = ''co'' \<longrightarrow> v \<le> 100))) \<and>
         validate_inputs lower upper inputs
           = concat (map (\<lambda>(k, v).
               if v < 0 then [upper (lower k) @ '' tidak boleh negatif'']
               else if 10000 < v then [upper (lower k) @ '' terlalu tinggi (maksimal 10000)'']
               else []) inputs)
             @ (if \<exists>(k, v) \<in> set inputs. lower k = ''co'' \<and> 100 < v then [co_message] else []) \<and>
         length (validate_inputs lower upper inputs)
           = length (filter (\<lambda>(k, v). v < 0 \<or> 10000 < v) inputs)
             + length (filter (\<lambda>(k, v). lower k = ''co'' \<and> 100 < v) inputs) \<and>
         (validate_inputs lower upper
            [(''pm10'', pm10), (''pm2_5'', pm2_5), (''so2'', so2), (''no'', no),
             (''no2'', no2), (''o3'', o3), (''co'', co), (''nh3'', nh3)] \<noteq> [] \<longrightarrow>
            (\<forall>e \<in> set (fst (prediction_button lower upper pm10 pm2_5 so2 no no2 o3 co nh3)).
               \<not> is_engine_call e) \<and>
            prediction_button lower upper pm10 pm2_5 so2 no no2 o3 co nh3
              = (Validate [(''pm10'', pm10), (''pm2_5'', pm2_5), (''so2'', so2), (''no'', no),
                           (''no2'', no2), (''o3'', o3), (''co'', co), (''nh3'', nh3)]
                   # map (\<lambda>error. ShowError (cross_mark @ error))
                       (validate_inputs lower upper
                          [(''pm10'', pm10), (''pm2_5'', pm2_5), (''so2'', so2), (''no'', no),
                           (''no2'', no2), (''o3'', o3), (''co'', co), (''nh3'', nh3)])
                   @ [Stop],
                 Stopped (validate_inputs lower upper
                          [(''pm10'', pm10), (''pm2_5'', pm2_5), (''so2'', so2), (''no'', no),
                           (''no2'', no2), (''o3'', o3), (''co'', co), (''nh3'', nh3)]))) \<and>
         (validate_inputs lower upper
            [(''pm10'', pm10), (''pm2_5'', pm2_5), (''so2'', so2), (''no'', no),
             (''no2'', no2), (''o3'', o3), (''co'', co), (''nh3'', nh3)] = [] \<longrightarrow>
            Engine pm10 pm2_5 so2 no2 o3 co
              \<in> set (fst (prediction_button lower upper pm10 pm2_5 so2 no no2 o3 co nh3))) \<and>
         ((\<forall>k \<in> set [''pm10'', ''pm2_5'', ''so2'', ''no'', ''no2'', ''o3'', ''co'', ''nh3''].
             lower k = k) \<longrightarrow>
            validate_inputs lower upper
              [(''pm10'', 50), (''pm2_5'', 35), (''so2'', 20), (''no'', 10),
               (''no2'', 40), (''o3'', 50), (''co'', 150), (''nh3'', 10)] = [co_message] \<and>
            prediction_button lower upper 50 35 20 10 40 50 150 10
              = ([Validate [(''pm10'', 50), (''pm2_5'', 35), (''so2'', 20), (''no'', 10),
                            (''no2'', 40), (''o3'', 50), (''co'', 150), (''nh3'', 10)],
                  ShowError (cross_mark @ co_message), Stop],
                 Stopped [co_message]))"
proof -
  let ?page = "[(''pm10'', pm10), (''pm2_5'', pm2_5), (''so2'', so2), (''no'', no),
                (''no2'', no2), (''o3'', o3), (''co'', co), (''nh3'', nh3)]"
  let ?run = "prediction_button lower upper pm10 pm2_5 so2 no no2 o3 co nh3"
  let ?fix = "[(''pm10'', 50), (''pm2_5'', 35), (''so2'', 20), (''no'', 10),
               (''no2'', 40), (''o3'', 50), (''co'', 150), (''nh3'', 10)] :: (string \<times> rat) list"
  note msgs = validate_inputs_messages [OF assms, of upper]
  note len = validate_inputs_length [OF assms, of upper]
  have "validate_inputs lower upper inputs = [] \<longleftrightarrow>
      length (validate_inputs lower upper inputs) = 0"
    by simp
  also have "\<dots> \<longleftrightarrow>
      length (filter (\<lambda>(k, v). v < 0 \<or> 10000 < v) inputs) = 0 \<and>
      length (filter (\<lambda>(k, v). lower k = ''co'' \<and> 100 < v) inputs) = 0"
    unfolding len by (rule add_is_0)
  also have "\<dots> \<longleftrightarrow>
      (\<forall>(k, v) \<in> set inputs. 0 \<le> v \<and> v \<le> 10000 \<and> (lower k = ''co'' \<longrightarrow> v \<le> 100))"
    unfolding length_0_conv filter_empty_conv by (auto simp: not_less)
  finally have iff: "validate_inputs lower upper inputs = [] \<longleftrightarrow>
      (\<forall>(k, v) \<in> set inputs. 0 \<le> v \<and> v \<le> 10000 \<and> (lower k = ''co'' \<longrightarrow> v \<le> 100))" .
  have stop: "validate_inputs lower upper ?page \<noteq> [] \<longrightarrow>
      (\<forall>e \<in> set (fst ?run). \<not> is_engine_call e) \<and>
      ?run = (Validate ?page
                # map (\<lambda>error. ShowError (cross_mark @ error)) (validate_inputs lower upper ?page)
                @ [Stop],
              Stopped (validate_inputs lower upper ?page))"
  proof
    assume ne: "validate_inputs lower upper ?page \<noteq> []"
    then have run: "?run = (Validate ?page
                # map (\<lambda>error. ShowError (cross_mark @ error)) (validate_inputs lower upper ?page)
                @ [Stop],
              Stopped (validate_inputs lower upper ?page))"
      by (simp add: prediction_button_def Let_def)
    have "\<forall>e \<in> set (fst ?run). \<not> is_engine_call e"
      unfolding run fst_conv by (rule stopped_trace_no_engine)
    with run show "(\<forall>e \<in> set (fst ?run). \<not> is_engine_call e) \<and>
      ?run = (Validate ?page
                # map (\<lambda>error. ShowError (cross_mark @ error)) (validate_inputs lower upper ?page)
                @ [Stop],
              Stopped (validate_inputs lower upper ?page))"
      by (intro conjI)
  qed
  have go: "validate_inputs lower upper ?page = [] \<longrightarrow>
      Engine pm10 pm2_5 so2 no2 o3 co \<in> set (fst ?run)"
    by (simp add: prediction_button_def Let_def split: sum.split prod.split)
  have fixture: "(\<forall>k \<in> set [''pm10'', ''pm2_5'', ''so2'', ''no'', ''no2'', ''o3'', ''co'', ''nh3''].
         lower k = k) \<longrightarrow>
      validate_inputs lower upper ?fix = [co_message] \<and>
      prediction_button lower upper 50 35 20 10 40 50 150 10
        = ([Validate ?fix, ShowError (cross_mark @ co_message), Stop], Stopped [co_message])"
  proof
    assume "\<forall>k \<in> set [''pm10'', ''pm2_5'', ''so2'', ''no'', ''no2'', ''o3'', ''co'', ''nh3''].
      lower k = k"
    then have lo: "lower ''pm10'' = ''pm10''" "lower ''pm2_5'' = ''pm2_5''"
      "lower ''so2'' = ''so2''" "lower ''no'' = ''no''" "lower ''no2'' = ''no2''"
      "lower ''o3'' = ''o3''" "lower ''co'' = ''co''" "lower ''nh3'' = ''nh3''"
      by simp_all
    have d: "distinct (map (\<lambda>x. lower (fst x)) ?fix)" by (simp add: lo)
    have v: "validate_inputs lower upper ?fix = [co_message]"
      unfolding validate_inputs_messages [OF d] by (simp add: lo)
    then have "prediction_button lower upper 50 35 20 10 40 50 150 10
        = ([Validate ?fix, ShowError (cross_mark @ co_message), Stop], Stopped [co_message])"
      by (simp add: prediction_button_def Let_def)
    with v show "validate_inputs lower upper ?fix = [co_message] \<and>
      prediction_button lower upper 50 35 20 10 40 50 150 10
        = ([Validate ?fix, ShowError (cross_mark @ co_message), Stop], Stopped [co_message])"
      by (intro conjI)
  qed
  from iff msgs len stop go fixture show ?thesis by (intro conjI)
qed

theorem validate_inputs_gate_witness:
  "validate_inputs ascii_lower ascii_upper [(''pm10'', - 1), (''CO'', 20000)]
     = [''PM10 tidak boleh negatif'', ''CO terlalu tinggi (maksimal 10000)'', co_message] \<and>
   validate_inputs ascii_lower ascii_upper [(''so2'', 7), (''Co'', 100)] = [] \<and>
   prediction_button ascii_lower ascii_upper 50 35 20 10 40 50 150 10
     = ([Validate [(''pm10'', 50), (''pm2_5'', 35), (''so2'', 20), (''no'', 10),
                   (''no2'', 40), (''o3'', 50), (''co'', 150), (''nh3'', 10)],
         ShowError (cross_mark @ co_message), Stop],
        Stopped [co_message]) \<and>
   \<not> list_ex is_engine_call
       (fst (prediction_button ascii_lower ascii_upper 50 35 20 10 40 50 150 10)) \<and>
   Engine 50 35 20 40 50 4
     \<in> set (fst (prediction_button ascii_lower ascii_upper 50 35 20 10 40 50 4 10))"
proof -
  let ?bad = "[(''pm10'', - 1), (''CO'', 20000)] :: (string \<times> rat) list"
  let ?good = "[(''so2'', 7), (''Co'', 100)] :: (string \<times> rat) list"
  have lo: "ascii_lower ''pm10'' = ''pm10''" "ascii_lower ''CO'' = ''co''"
    "ascii_lower ''so2'' = ''so2''" "ascii_lower ''Co'' = ''co''"
    by code_simp+
  have up: "ascii_upper ''pm10'' = ''PM10''" "ascii_upper ''co'' = ''CO''"
    by code_simp+
  have keys: "\<forall>k \<in> set [''pm10'', ''pm2_5'', ''so2'', ''no'', ''no2'', ''o3'', ''co'', ''nh3''].
      ascii_lower k = k"
    by code_simp
  have d1: "distinct (map (\<lambda>x. ascii_lower (fst x)) ?bad)" by (simp add: lo)
  have d2: "distinct (map (\<lambda>x. ascii_lower (fst x)) ?good)" by (simp add: lo)
  note bad = validate_inputs_gate [OF d1, of ascii_upper 50 35 20 10 40 50 150 10]
  note good = validate_inputs_gate [OF d2, of ascii_upper 50 35 20 10 40 50 4 10]
  from bad have "validate_inputs ascii_lower ascii_upper ?bad
      = concat (map (\<lambda>(k, v).
          if v < 0 then [ascii_upper (ascii_lower k) @ '' tidak boleh negatif'']
          else if 10000 < v
          then [ascii_upper (ascii_lower k) @ '' terlalu tinggi (maksimal 10000)'']
          else []) ?bad)
        @ (if \<exists>(k, v) \<in> set ?bad. ascii_lower k = ''co'' \<and> 100 < v then [co_message] else [])"
    by (rule conjunct2 [THEN conjunct1])
  then have a: "validate_inputs ascii_lower ascii_upper ?bad
      = [''PM10 tidak boleh negatif'', ''CO terlalu tinggi (maksimal 10000)'', co_message]"
    by (simp add: lo up)
  from good have "validate_inputs ascii_lower ascii_upper ?good = [] \<longleftrightarrow>
      (\<forall>(k, v) \<in> set ?good. 0 \<le> v \<and> v \<le> 10000 \<and> (ascii_lower k = ''co'' \<longrightarrow> v \<le> 100))"
    by (rule conjunct1)
  then have b: "validate_inputs ascii_lower ascii_upper ?good = []" by (simp add: lo)
  from bad keys have c: "validate_inputs ascii_lower ascii_upper
        [(''pm10'', 50), (''pm2_5'', 35), (''so2'', 20), (''no'', 10),
         (''no2'', 40), (''o3'', 50), (''co'', 150), (''nh3'', 10)] = [co_message] \<and>
      prediction_button ascii_lower ascii_upper 50 35 20 10 40 50 150 10
        = ([Validate [(''pm10'', 50), (''pm2_5'', 35), (''so2'', 20), (''no'', 10),
                      (''no2'', 40), (''o3'', 50), (''co'', 150), (''nh3'', 10)],
            ShowError (cross_mark @ co_message), Stop],
           Stopped [co_message])"
    by (rule conjunct2 [THEN conjunct2, THEN conjunct2, THEN conjunct2, THEN conjunct2,
          THEN mp])
  then have ne: "validate_inputs ascii_lower ascii_upper
        [(''pm10'', 50), (''pm2_5'', 35), (''so2'', 20), (''no'', 10),
         (''no2'', 40), (''o3'', 50), (''co'', 150), (''nh3'', 10)] \<noteq> []"
    by simp
  from bad ne have "\<forall>e \<in> set (fst (prediction_button ascii_lower ascii_upper
        50 35 20 10 40 50 150 10)). \<not> is_engine_call e"
    by (rule conjunct2 [THEN conjunct2, THEN conjunct2, THEN conjunct1, THEN mp,
          THEN conjunct1])
  then have d: "\<not> list_ex is_engine_call
      (fst (prediction_button ascii_lower ascii_upper 50 35 20 10 40 50 150 10))"
    by (simp add: list_ex_iff)
  have ok: "validate_inputs ascii_lower ascii_upper
        [(''pm10'', 50), (''pm2_5'', 35), (''so2'', 20), (''no'', 10),
         (''no2'', 40), (''o3'', 50), (''co'', 4), (''nh3'', 10)] = []"
    by code_simp
  from good ok have e: "Engine 50 35 20 40 50 4
      \<in> set (fst (prediction_button ascii_lower ascii_upper 50 35 20 10 40 50 4 10))"
    by (rule conjunct2 [THEN conjunct2, THEN conjunct2, THEN conjunct2, THEN conjunct1,
          THEN mp])
  from a b c [THEN conjunct2] d e show ?thesis by (intro conjI)
qed

end
